theory Spec2Isabelle
  imports Main "HOL-Library.Word" "HOL-Library.Monad_Syntax" "HOL-Library.Sublist"
begin

section \<open>Machine integers and error codes\<close>

type_synonym u16 = "16 word"
type_synonym u32 = "32 word"
type_synonym u64 = "64 word"

text \<open>The error codes named by \<^verbatim>\<open>xct.hpp\<close> and by the list of stable error codes.\<close>

datatype ErrorCode =
    kErrorCodeOk
  | kErrorCodeXctNoMoreLocalWorkMemory
  | kErrorCodeXctTooManyReads

text \<open>
  What a C++ call does beyond returning: an integer division by zero is undefined
  behaviour, a failed \<^verbatim>\<open>ASSERT_ND\<close> aborts a debug build.
\<close>

datatype fault = DivisionByZero | AssertionFailed

section \<open>Epoch\<close>

text \<open>
  Modelled from the spec: \<^verbatim>\<open>class Epoch\<close> (\<^verbatim>\<open>foedus/epoch.hpp\<close> is not among the
  sources; \<^verbatim>\<open>composer.hpp\<close>, \<^verbatim>\<open>xct.hpp\<close> and \<^verbatim>\<open>mapreduce_base_impl.cpp\<close> only use
  it). The spec: a 32-bit cyclic counter with a reserved \<^verbatim>\<open>INVALID = 0\<close>; \<^verbatim>\<open>a.before(b)\<close>
  holds iff \<^verbatim>\<open>(b - a) mod 2^32\<close> is in \<^verbatim>\<open>(0, 2^31)\<close>; \<^verbatim>\<open>store_max(a,b)\<close> picks the
  "after" one by this ordering; \<^verbatim>\<open>a > b\<close> is \<^verbatim>\<open>b.before(a)\<close>.
\<close>

type_synonym Epoch = u32

definition kEpochInvalid :: Epoch where
  "kEpochInvalid = 0"

definition Epoch_before :: "Epoch \<Rightarrow> Epoch \<Rightarrow> bool" where
  "Epoch_before a b \<longleftrightarrow> 0 < b - a \<and> b - a < 2 ^ 31"

definition Epoch_after :: "Epoch \<Rightarrow> Epoch \<Rightarrow> bool" where
  "Epoch_after a b \<longleftrightarrow> Epoch_before b a"

definition Epoch_store_max :: "Epoch \<Rightarrow> Epoch \<Rightarrow> Epoch" where
  "Epoch_store_max a b = (if Epoch_before a b then b else a)"

text \<open>
  The distance of an epoch from a reference epoch \<open>lo\<close>, going forward around the
  circle. Epochs whose distance from a common \<open>lo\<close> is below \<open>2 ^ 31\<close> lie in one
  half of the circle, where \<^verbatim>\<open>before\<close> is a linear order.
\<close>

definition epoch_offset :: "Epoch \<Rightarrow> Epoch \<Rightarrow> nat" where
  "epoch_offset lo e = unat (e - lo)"

definition in_window :: "Epoch \<Rightarrow> Epoch \<Rightarrow> bool" where
  "in_window lo e \<longleftrightarrow> epoch_offset lo e < 2 ^ 31"

section \<open>Composer: the result of dropping volatile pages\<close>

text \<open>
  \<^verbatim>\<open>snapshot::Snapshot\<close> is declared in \<^verbatim>\<open>foedus/snapshot/snapshot.hpp\<close>, which is not
  among the sources; the spec lists its fields, of which \<^verbatim>\<open>composer.hpp\<close> reads
  \<^verbatim>\<open>valid_until_epoch_\<close>. Of \<^verbatim>\<open>DropVolatilesArguments\<close> the pointers to the
  chunks of dropped pages and to the counter are left out.
\<close>

record Snapshot =
  base_epoch :: Epoch
  valid_until_epoch :: Epoch

record DropVolatilesArguments =
  snapshot :: Snapshot
  my_partition :: u16
  partitioned_drop :: bool

record DropResult =
  max_observed :: Epoch
  dropped_all :: bool

text \<open>\<^verbatim>\<open>explicit DropResult(const DropVolatilesArguments& args)\<close>\<close>

definition DropResult_init :: "DropVolatilesArguments \<Rightarrow> DropResult" where
  "DropResult_init args =
     \<lparr>max_observed = valid_until_epoch (snapshot args), dropped_all = True\<rparr>"

text \<open>\<^verbatim>\<open>void combine(const DropResult& other)\<close>, on \<^verbatim>\<open>*this\<close>.\<close>

definition combine :: "DropResult \<Rightarrow> DropResult \<Rightarrow> DropResult" where
  "combine this other =
     \<lparr>max_observed = Epoch_store_max (max_observed this) (max_observed other),
      dropped_all = (dropped_all this \<and> dropped_all other)\<rparr>"

text \<open>\<^verbatim>\<open>void on_rec_observed(Epoch epoch)\<close>, on \<^verbatim>\<open>*this\<close>.\<close>

definition on_rec_observed :: "DropResult \<Rightarrow> Epoch \<Rightarrow> DropResult" where
  "on_rec_observed this epoch =
     (if Epoch_after epoch (max_observed this)
      then this\<lparr>max_observed := epoch, dropped_all := False\<rparr>
      else this)"

text \<open>
  The property claimed of every \<^verbatim>\<open>DropResult\<close>: \<^verbatim>\<open>max_observed_\<close> is not before
  \<^verbatim>\<open>snapshot_.valid_until_epoch_\<close>, and \<^verbatim>\<open>dropped_all_\<close> is false whenever
  \<^verbatim>\<open>max_observed_\<close> is after it.
\<close>

definition drop_result_ok :: "DropVolatilesArguments \<Rightarrow> DropResult \<Rightarrow> bool" where
  "drop_result_ok args r \<longleftrightarrow>
     \<not> Epoch_before (max_observed r) (valid_until_epoch (snapshot args)) \<and>
     (Epoch_after (max_observed r) (valid_until_epoch (snapshot args)) \<longrightarrow> \<not> dropped_all r)"

text \<open>The calls that update a \<^verbatim>\<open>DropResult\<close> after its construction.\<close>

datatype DropUpdate = OnRecObserved Epoch | Combine DropResult

fun apply_update :: "DropResult \<Rightarrow> DropUpdate \<Rightarrow> DropResult" where
  "apply_update r (OnRecObserved e) = on_rec_observed r e"
| "apply_update r (Combine other) = combine r other"

definition run_updates :: "DropVolatilesArguments \<Rightarrow> DropUpdate list \<Rightarrow> DropResult" where
  "run_updates args us = foldl apply_update (DropResult_init args) us"

text \<open>
  An update stays within the half of the epoch circle that starts at \<open>lo\<close>; a combined
  operand has the claimed property itself.
\<close>

fun update_in_window :: "Epoch \<Rightarrow> DropVolatilesArguments \<Rightarrow> DropUpdate \<Rightarrow> bool" where
  "update_in_window lo args (OnRecObserved e) = in_window lo e"
| "update_in_window lo args (Combine other) =
     (in_window lo (max_observed other) \<and> drop_result_ok args other)"

text \<open>
  A result whose \<^verbatim>\<open>max_observed_\<close> is \<^verbatim>\<open>valid_until_epoch_\<close> or less than \<open>2 ^ 31\<close>
  epochs after it.
\<close>

definition result_in_window :: "DropVolatilesArguments \<Rightarrow> DropResult \<Rightarrow> bool" where
  "result_in_window args r \<longleftrightarrow>
     in_window (valid_until_epoch (snapshot args)) (max_observed r)"

text \<open>
  Modelled from the spec: the decision to call \<^verbatim>\<open>drop_root_volatile\<close> (its caller is not
  among the sources; \<^verbatim>\<open>composer.hpp\<close> only declares the function). The spec: a root
  volatile page is dropped only when every partition returned "no new modifications"
  (\<^verbatim>\<open>max_observed == valid_until_epoch && dropped_all\<close>).
\<close>

definition no_new_modifications :: "DropVolatilesArguments \<Rightarrow> DropResult \<Rightarrow> bool" where
  "no_new_modifications args r \<longleftrightarrow>
     max_observed r = valid_until_epoch (snapshot args) \<and> dropped_all r"

definition drops_root_volatile :: "DropVolatilesArguments \<Rightarrow> DropResult list \<Rightarrow> bool" where
  "drops_root_volatile args rs = list_all (no_new_modifications args) rs"

section \<open>Xct: local work memory\<close>

text \<open>
  The three fields of \<^verbatim>\<open>class Xct\<close> that \<^verbatim>\<open>acquire_local_work_memory\<close> touches, as
  the record that \<open>Xct\<close> below extends:
  \<^verbatim>\<open>void* local_work_memory_\<close> (an address), \<^verbatim>\<open>uint64_t local_work_memory_size_\<close> and
  \<^verbatim>\<open>uint64_t local_work_memory_cur_\<close>. Here and below, field names are written without
  the trailing underscore of the source.
\<close>

record WorkMemory =
  local_work_memory :: u64
  local_work_memory_size :: u64
  local_work_memory_cur :: u64

text \<open>
  \<^verbatim>\<open>ErrorCode acquire_local_work_memory(uint32_t size, void** out, uint32_t alignment = 8)\<close>.
  \<^verbatim>\<open>size\<close> is rounded in 32-bit arithmetic, \<^verbatim>\<open>begin\<close> in 64-bit arithmetic (the
  \<^verbatim>\<open>uint32_t\<close> operands are converted to \<^verbatim>\<open>uint64_t\<close>). The result holds the error
  code, the value stored to \<^verbatim>\<open>*out\<close> (\<open>None\<close> when nothing is stored) and the object
  after the call.
\<close>

definition acquire_local_work_memory ::
  "u32 \<Rightarrow> u32 \<Rightarrow> 'a WorkMemory_scheme
     \<Rightarrow> fault + (ErrorCode \<times> u64 option \<times> 'a WorkMemory_scheme)" where
  "acquire_local_work_memory size0 alignment x =
     (if alignment = 0 then Inl DivisionByZero
      else
        let size1 = (if size0 mod alignment \<noteq> 0
                     then ((size0 div alignment) + 1) * alignment else size0);
            begin0 = local_work_memory_cur x;
            begin1 = (if begin0 mod (ucast alignment) \<noteq> 0
                      then ((begin0 div (ucast alignment)) + 1) * (ucast alignment)
                      else begin0)
        in if (ucast size1 :: u64) + begin1 > local_work_memory_size x
           then Inr (kErrorCodeXctNoMoreLocalWorkMemory, None, x)
           else Inr (kErrorCodeOk, Some (local_work_memory x + begin1),
                     x\<lparr>local_work_memory_cur := ucast size1 + begin1\<rparr>))"

text \<open>The rounding the claim speaks of, on unbounded naturals.\<close>

definition round_up :: "nat \<Rightarrow> nat \<Rightarrow> nat" where
  "round_up n a = (if n mod a \<noteq> 0 then ((n div a) + 1) * a else n)"

section \<open>XctId\<close>

text \<open>
  Modelled from the spec: \<^verbatim>\<open>struct XctId\<close> (\<^verbatim>\<open>foedus/xct/xct_id.hpp\<close> is not among the
  sources). The spec: fields epoch (32 bits) and in-epoch ordinal (24 bits), and status
  bits that take no part in the comparison and are left out here; \<^verbatim>\<open>before(a,b)\<close>
  compares lexicographically on (epoch, ordinal). An id is valid when its epoch is not
  the reserved invalid epoch.
\<close>

type_synonym u24 = "24 word"

record XctId =
  epoch :: Epoch
  ordinal :: u24

definition XctId_before :: "XctId \<Rightarrow> XctId \<Rightarrow> bool" where
  "XctId_before a b \<longleftrightarrow>
     Epoch_before (epoch a) (epoch b) \<or> (epoch a = epoch b \<and> ordinal a < ordinal b)"

definition XctId_store_max :: "XctId \<Rightarrow> XctId \<Rightarrow> XctId" where
  "XctId_store_max a b = (if XctId_before a b then b else a)"

definition XctId_is_valid :: "XctId \<Rightarrow> bool" where
  "XctId_is_valid a \<longleftrightarrow> epoch a \<noteq> kEpochInvalid"

section \<open>Xct\<close>

text \<open>
  The types of the entries of the sets and lock lists are declared in
  \<^verbatim>\<open>xct_access.hpp\<close>, \<^verbatim>\<open>xct_id.hpp\<close> and \<^verbatim>\<open>retrospective_lock_list.hpp\<close>, none of
  them among the sources; they are taken from the data model of the spec: a pointer-set
  entry is (address of volatile pointer, observed value), a page-version-set entry is
  (address of page version word, observed status), a CLL entry is (lockable, desired
  mode, current mode), and the RLL is the lock set surviving from the previous abort.
\<close>

datatype IsolationLevel = kSnapshot | kSerializable

record PointerAccess =
  address :: u64
  observed :: u64

record PageVersionAccess =
  version_address :: u64
  observed_status :: u64

datatype LockMode = kNoLock | kReadLock | kWriteLock

record RetrospectiveLock =
  universal_lock_id :: u64
  preferred_mode :: LockMode

record CurrentLock = RetrospectiveLock +
  taken_mode :: LockMode

text \<open>
  \<^verbatim>\<open>class Xct\<close>. The arrays \<^verbatim>\<open>pointer_set_\<close> and \<^verbatim>\<open>page_version_set_\<close> are lists
  (the allocated arrays), the first \<^verbatim>\<open>..._size_\<close> elements of which are the set. Of
  the read, write and lock-free write sets only the sizes are kept; \<^verbatim>\<open>engine_\<close> and
  \<^verbatim>\<open>thread_id_\<close> are left out; \<^verbatim>\<open>mcs_block_current\<close> is the cell
  \<^verbatim>\<open>*mcs_block_current_\<close> points to; \<^verbatim>\<open>xct_id\<close> is the field \<^verbatim>\<open>id_\<close>.
\<close>

record Xct = WorkMemory +
  xct_id :: XctId
  isolation_level :: IsolationLevel
  active :: bool
  mcs_block_current :: u32
  read_set_size :: u32
  write_set_size :: u32
  lock_free_write_set_size :: u32
  pointer_set :: "PointerAccess list"
  pointer_set_size :: u32
  page_version_set :: "PageVersionAccess list"
  page_version_set_size :: u32
  current_lock_list :: "CurrentLock list"
  retrospective_lock_list :: "RetrospectiveLock list"

definition kMaxPointerSets :: u32 where
  "kMaxPointerSets = 1024"

definition kMaxPageVersionSets :: u32 where
  "kMaxPageVersionSets = 1024"

text \<open>
  Modelled from the spec: \<^verbatim>\<open>CurrentLockList::clear_entries\<close>,
  \<^verbatim>\<open>RetrospectiveLockList::is_empty\<close> and
  \<^verbatim>\<open>CurrentLockList::prepopulate_for_retrospective_lock_list\<close>
  (\<^verbatim>\<open>retrospective_lock_list.hpp\<close> is not among the sources). The spec: after
  \<^verbatim>\<open>activate\<close> the CLL is cleared; if the RLL is non-empty, the CLL is pre-populated
  with CLL entries matching each RLL entry, in the same order, but not yet acquired.
\<close>

definition clear_entries :: "CurrentLock list \<Rightarrow> CurrentLock list" where
  "clear_entries cll = []"

definition is_empty :: "RetrospectiveLock list \<Rightarrow> bool" where
  "is_empty rll \<longleftrightarrow> rll = []"

definition prepopulate_for_retrospective_lock_list ::
  "CurrentLock list \<Rightarrow> RetrospectiveLock list \<Rightarrow> CurrentLock list" where
  "prepopulate_for_retrospective_lock_list cll rll =
     map (\<lambda>e. \<lparr>universal_lock_id = universal_lock_id e, preferred_mode = preferred_mode e,
               taken_mode = kNoLock\<rparr>) rll"

text \<open>
  \<^verbatim>\<open>void activate(IsolationLevel isolation_level)\<close>. \<^verbatim>\<open>ASSERT_ND(!active_)\<close> is the
  fault of a call on an active transaction.
\<close>

definition activate :: "IsolationLevel \<Rightarrow> Xct \<Rightarrow> fault + Xct" where
  "activate level x =
     (if active x then Inl AssertionFailed
      else
        let x1 = x\<lparr>active := True,
                   isolation_level := level,
                   pointer_set_size := 0,
                   page_version_set_size := 0,
                   read_set_size := 0,
                   write_set_size := 0,
                   lock_free_write_set_size := 0,
                   mcs_block_current := 0,
                   local_work_memory_cur := 0,
                   current_lock_list := clear_entries (current_lock_list x)\<rparr>
        in if \<not> is_empty (retrospective_lock_list x1)
           then Inr (x1\<lparr>current_lock_list :=
                      prepopulate_for_retrospective_lock_list
                        (current_lock_list x1) (retrospective_lock_list x1)\<rparr>)
           else Inr x1)"

text \<open>
  Modelled from the spec: \<^verbatim>\<open>Xct::add_to_pointer_set\<close> and
  \<^verbatim>\<open>Xct::add_to_page_version_set\<close> (\<^verbatim>\<open>xct.hpp\<close> declares them; their bodies, in
  \<^verbatim>\<open>xct.cpp\<close>, are not among the sources). The spec: \<^verbatim>\<open>pointer_set\<close> and
  \<^verbatim>\<open>page_version_set\<close> each hold at most 1024 entries; exceeding returns
  \<^verbatim>\<open>XCT_TOO_MANY_READS\<close>. Otherwise the entry is stored behind the last one.
\<close>

definition add_to_pointer_set :: "u64 \<Rightarrow> u64 \<Rightarrow> Xct \<Rightarrow> ErrorCode \<times> Xct" where
  "add_to_pointer_set pointer_address obs x =
     (if pointer_set_size x \<ge> kMaxPointerSets then (kErrorCodeXctTooManyReads, x)
      else (kErrorCodeOk,
            x\<lparr>pointer_set := (pointer_set x)[unat (pointer_set_size x) :=
                                  \<lparr>address = pointer_address, observed = obs\<rparr>],
              pointer_set_size := pointer_set_size x + 1\<rparr>))"

definition add_to_page_version_set :: "u64 \<Rightarrow> u64 \<Rightarrow> Xct \<Rightarrow> ErrorCode \<times> Xct" where
  "add_to_page_version_set addr obs x =
     (if page_version_set_size x \<ge> kMaxPageVersionSets then (kErrorCodeXctTooManyReads, x)
      else (kErrorCodeOk,
            x\<lparr>page_version_set := (page_version_set x)[unat (page_version_set_size x) :=
                                  \<lparr>version_address = addr, observed_status = obs\<rparr>],
              page_version_set_size := page_version_set_size x + 1\<rparr>))"

text \<open>The entries a set holds: the first \<^verbatim>\<open>..._size_\<close> elements of its array.\<close>

definition pointer_set_entries :: "Xct \<Rightarrow> PointerAccess list" where
  "pointer_set_entries x = take (unat (pointer_set_size x)) (pointer_set x)"

definition page_version_set_entries :: "Xct \<Rightarrow> PageVersionAccess list" where
  "page_version_set_entries x = take (unat (page_version_set_size x)) (page_version_set x)"

text \<open>
  The calls that add to the two sets in the course of a transaction; the state after a
  call, whatever its error code.
\<close>

datatype SetCall = AddToPointerSet u64 u64 | AddToPageVersionSet u64 u64

fun do_set_call :: "Xct \<Rightarrow> SetCall \<Rightarrow> Xct" where
  "do_set_call x (AddToPointerSet a ob) = snd (add_to_pointer_set a ob x)"
| "do_set_call x (AddToPageVersionSet a ob) = snd (add_to_page_version_set a ob x)"

text \<open>
  \<^verbatim>\<open>void remember_previous_xct_id(XctId new_id)\<close>, with its three assertions.
\<close>

definition remember_previous_xct_id :: "XctId \<Rightarrow> Xct \<Rightarrow> fault + Xct" where
  "remember_previous_xct_id new_id x =
     (if \<not> XctId_before (xct_id x) new_id then Inl AssertionFailed
      else
        let x1 = x\<lparr>xct_id := new_id\<rparr>
        in if \<not> ordinal (xct_id x1) > 0 then Inl AssertionFailed
           else if \<not> XctId_is_valid (xct_id x1) then Inl AssertionFailed
           else Inr x1)"

text \<open>
  Modelled from the spec: \<^verbatim>\<open>Xct::issue_next_id\<close> (\<^verbatim>\<open>xct.hpp\<close> declares and documents
  it; its body, in \<^verbatim>\<open>xct.cpp\<close>, is not among the sources). The spec: the output XctId
  is strictly greater than \<^verbatim>\<open>id_\<close>, strictly greater than \<^verbatim>\<open>max_dep_xct_id\<close>, and in
  \<^verbatim>\<open>epoch\<close> (the provided lower bound); if the ordinal would overflow 24 bits, advance
  \<^verbatim>\<open>epoch\<close> by 1 and reset the ordinal to 1. The new id is stored with
  \<^verbatim>\<open>remember_previous_xct_id\<close>; the result holds the object after the call and the
  value left in \<^verbatim>\<open>*epoch\<close>.
\<close>

definition kMaxXctOrdinal :: u24 where
  "kMaxXctOrdinal = 0xFFFFFF"

definition issue_next_id :: "XctId \<Rightarrow> Epoch \<Rightarrow> Xct \<Rightarrow> fault + (Xct \<times> Epoch)" where
  "issue_next_id max_xct_id epoch_in x =
     (let id1 = XctId_store_max (xct_id x) max_xct_id;
          id2 = (if Epoch_before (epoch id1) epoch_in
                 then \<lparr>epoch = epoch_in, ordinal = 0\<rparr> else id1);
          epoch_out = (if ordinal id2 = kMaxXctOrdinal then epoch_in + 1 else epoch_in);
          new_id = (if ordinal id2 = kMaxXctOrdinal
                    then \<lparr>epoch = epoch_out, ordinal = 1\<rparr>
                    else id2\<lparr>ordinal := ordinal id2 + 1\<rparr>)
      in case remember_previous_xct_id new_id x of
           Inl f \<Rightarrow> Inl f
         | Inr x' \<Rightarrow> Inr (x', epoch_out))"

text \<open>
  The largest ordinal already used in epoch \<open>e\<close> by the two ids the new id has to
  exceed (0 when neither is in \<open>e\<close>).
\<close>

definition ordinal_in_epoch :: "Epoch \<Rightarrow> XctId \<Rightarrow> u24" where
  "ordinal_in_epoch e a = (if epoch a = e then ordinal a else 0)"

definition used_ordinal :: "Epoch \<Rightarrow> XctId \<Rightarrow> XctId \<Rightarrow> u24" where
  "used_ordinal e a b = max (ordinal_in_epoch e a) (ordinal_in_epoch e b)"

text \<open>
  An id whose epoch is \<open>e\<close> or before it, and still before the epoch after \<open>e\<close>: at
  most \<open>2 ^ 31 - 2\<close> epochs behind \<open>e\<close>.
\<close>

definition not_after_epoch :: "Epoch \<Rightarrow> XctId \<Rightarrow> bool" where
  "not_after_epoch e a \<longleftrightarrow> unat (e - epoch a) < 2 ^ 31 - 1"

section \<open>Mapper and reducer base\<close>

text \<open>
  \<^verbatim>\<open>MapReduceBase\<close> runs on its own thread and shares the state of its parent, the log
  gleaner, with the gleaner and the other workers. A call of one of its functions is
  modelled by what the call reads from the parent (an input of the model, since another
  thread may have written it) and by the sequence of the calls it makes on the parent
  and on itself (a trace; the reads of the parent's state are not part of it, but for
  the one of the loop condition).

  \<^verbatim>\<open>LogGleaner\<close>, \<^verbatim>\<open>handle_initialize\<close>, \<^verbatim>\<open>handle_epoch\<close>,
  \<^verbatim>\<open>handle_uninitialize\<close> and \<^verbatim>\<open>pre_wait_for_next_epoch\<close> are not among the sources: a
  call of one of them is an event of the trace, with the result that the caller tests
  (\<open>True\<close> for \<^verbatim>\<open>is_error()\<close>).
\<close>

datatype event =
    NumaRunOnNode
  | HandleInitialize bool
  | HandleEpoch bool
  | HandleUninitialize bool
  | PreWaitForNextEpoch
  | GetNextProcessingEpoch Epoch
  | IncrementCompletedCount u16
  | IsStopRequested bool
  | Wakeup
  | CondWait Epoch
  | IncrementErrorCount
  | IncrementExitCount

text \<open>
  How a call ends: it returns a value, it waits for ever on the condition variable, or an
  assertion of a debug build fails.
\<close>

datatype 'a outcome = Returned 'a | Blocked | Failed fault

text \<open>
  What one call of \<^verbatim>\<open>wait_for_next_epoch\<close> reads from its parent, in the order of the
  reads: the result of \<^verbatim>\<open>get_next_processing_epoch()\<close>; the parent's completed count
  at the moment of \<^verbatim>\<open>increment_completed_count()\<close>; \<^verbatim>\<open>get_all_count()\<close>;
  \<^verbatim>\<open>is_all_completed()\<close> and \<^verbatim>\<open>get_processing_epoch()\<close> as read by the second
  assertion; the snapshot; the pairs of \<^verbatim>\<open>get_processing_epoch()\<close> and
  \<^verbatim>\<open>is_stop_requested()\<close> that the predicate of the wait reads each time it is
  evaluated; and \<^verbatim>\<open>is_stop_requested()\<close> as read by the \<^verbatim>\<open>return\<close> statement.
\<close>

record WaitInput =
  next_processing_epoch :: Epoch
  completed_count :: u16
  all_count :: u16
  all_completed :: bool
  processing_epoch :: Epoch
  gleaner_snapshot :: Snapshot
  wakeups :: "(Epoch \<times> bool) list"
  stop_requested_at_return :: bool

text \<open>
  The wait on the condition variable with its predicate: it ends the first time the
  predicate holds; \<open>False\<close> when the predicate never holds.
\<close>

fun cond_wait :: "Epoch \<Rightarrow> (Epoch \<times> bool) list \<Rightarrow> bool" where
  "cond_wait next_epoch [] = False"
| "cond_wait next_epoch ((processing, stop) # later) =
     (if processing = next_epoch \<or> stop then True else cond_wait next_epoch later)"

text \<open>\<^verbatim>\<open>bool MapReduceBase::wait_for_next_epoch()\<close>\<close>

definition wait_for_next_epoch :: "WaitInput \<Rightarrow> bool outcome \<times> event list" where
  "wait_for_next_epoch w =
     (let next_epoch = next_processing_epoch w;
          value_after = completed_count w + 1;
          t1 = [PreWaitForNextEpoch, GetNextProcessingEpoch next_epoch,
                IncrementCompletedCount value_after]
      in if \<not> value_after \<le> all_count w then (Failed AssertionFailed, t1)
         else if value_after = all_count w
                 \<and> \<not> (all_completed w \<or> processing_epoch w = next_epoch)
         then (Failed AssertionFailed, t1)
         else
           let t2 = (if value_after = all_count w then t1 @ [Wakeup] else t1)
           in if Epoch_after next_epoch (valid_until_epoch (gleaner_snapshot w))
              then (Returned False, t2)
              else if cond_wait next_epoch (wakeups w)
              then (Returned (\<not> stop_requested_at_return w), t2 @ [CondWait next_epoch])
              else (Blocked, t2 @ [CondWait next_epoch]))"

text \<open>
  One iteration of the loop of \<^verbatim>\<open>handle()\<close>: \<^verbatim>\<open>is_stop_requested()\<close> as read by the
  loop condition, whether \<^verbatim>\<open>handle_epoch()\<close> returns an error, and what the call of
  \<^verbatim>\<open>wait_for_next_epoch()\<close> reads.
\<close>

record Iteration =
  stop_requested :: bool
  epoch_error :: bool
  next_wait :: WaitInput

text \<open>
  The loop of \<^verbatim>\<open>handle()\<close> over the iterations the run goes through. \<open>None\<close>: the
  list ends before the loop is left, so it does not describe a whole run.
\<close>

fun handle_loop :: "Iteration list \<Rightarrow> (unit outcome \<times> event list) option" where
  "handle_loop [] = None"
| "handle_loop (i # later) =
     (if stop_requested i then Some (Returned (), [IsStopRequested True])
      else if epoch_error i
      then Some (Returned (),
                 [IsStopRequested False, HandleEpoch True, IncrementErrorCount, Wakeup])
      else
        case wait_for_next_epoch (next_wait i) of
          (Returned True, t) \<Rightarrow>
            (case handle_loop later of
               None \<Rightarrow> None
             | Some (r, t') \<Rightarrow> Some (r, [IsStopRequested False, HandleEpoch False] @ t @ t'))
        | (Returned False, t) \<Rightarrow>
            Some (Returned (), [IsStopRequested False, HandleEpoch False] @ t)
        | (Blocked, t) \<Rightarrow> Some (Blocked, [IsStopRequested False, HandleEpoch False] @ t)
        | (Failed f, t) \<Rightarrow> Some (Failed f, [IsStopRequested False, HandleEpoch False] @ t))"

text \<open>What one run of \<^verbatim>\<open>handle()\<close> meets.\<close>

record HandleInput =
  init_error :: bool
  first_wait :: WaitInput
  iterations :: "Iteration list"
  uninit_error :: bool

text \<open>
  The part of \<^verbatim>\<open>handle()\<close> between \<^verbatim>\<open>handle_initialize()\<close> and
  \<^verbatim>\<open>handle_uninitialize()\<close>.
\<close>

definition handle_body :: "HandleInput \<Rightarrow> (unit outcome \<times> event list) option" where
  "handle_body h =
     (if init_error h then Some (Returned (), [IncrementErrorCount, Wakeup])
      else
        case wait_for_next_epoch (first_wait h) of
          (Returned True, t) \<Rightarrow>
            (case handle_loop (iterations h) of
               None \<Rightarrow> None
             | Some (r, t') \<Rightarrow> Some (r, t @ t'))
        | (Returned False, t) \<Rightarrow> Some (Returned (), t)
        | (Blocked, t) \<Rightarrow> Some (Blocked, t)
        | (Failed f, t) \<Rightarrow> Some (Failed f, t))"

text \<open>\<^verbatim>\<open>void MapReduceBase::handle()\<close>\<close>

definition handle :: "HandleInput \<Rightarrow> (unit outcome \<times> event list) option" where
  "handle h =
     (case handle_body h of
        None \<Rightarrow> None
      | Some (Returned u, t) \<Rightarrow>
          Some (Returned (),
                [NumaRunOnNode, HandleInitialize (init_error h)] @ t
                @ [HandleUninitialize (uninit_error h)]
                @ (if uninit_error h then [IncrementErrorCount] else [])
                @ [IncrementExitCount])
      | Some (Blocked, t) \<Rightarrow>
          Some (Blocked, [NumaRunOnNode, HandleInitialize (init_error h)] @ t)
      | Some (Failed f, t) \<Rightarrow>
          Some (Failed f, [NumaRunOnNode, HandleInitialize (init_error h)] @ t))"

text \<open>An iteration after which the loop is left.\<close>

definition leaves_loop :: "Iteration \<Rightarrow> bool" where
  "leaves_loop i \<longleftrightarrow>
     stop_requested i \<or> epoch_error i \<or>
     fst (wait_for_next_epoch (next_wait i)) \<noteq> Returned True"

text \<open>Calls of \<^verbatim>\<open>handle_uninitialize()\<close> in a trace.\<close>

fun is_uninitialize :: "event \<Rightarrow> bool" where
  "is_uninitialize (HandleUninitialize e) = True"
| "is_uninitialize _ = False"

text \<open>The events of the part of \<^verbatim>\<open>handle()\<close> between initialization and exit.\<close>

definition loop_event :: "event \<Rightarrow> bool" where
  "loop_event e \<longleftrightarrow>
     \<not> is_uninitialize e \<and> e \<noteq> IncrementExitCount \<and> e \<noteq> HandleInitialize True
     \<and> e \<noteq> HandleInitialize False \<and> e \<noteq> NumaRunOnNode"

section \<open>Snapshot options\<close>

text \<open>
  Modelled from the spec: \<^verbatim>\<open>assorted::replace_all(target, search, int replacement)\<close>
  (called by \<^verbatim>\<open>snapshot_options.cpp\<close>, defined in a file that is not among the sources).
  The spec: \<^verbatim>\<open>$NODE$\<close> is substituted with the node id; the claim: every occurrence of
  the placeholder is replaced by the decimal node id. Occurrences are taken from the
  left, and the text put in is not searched again.
\<close>

definition decimal_digit :: "nat \<Rightarrow> char" where
  "decimal_digit d = ''0123456789'' ! d"

function decimal_nat :: "nat \<Rightarrow> string" where
  "decimal_nat n =
     (if n < 10 then [decimal_digit n]
      else decimal_nat (n div 10) @ [decimal_digit (n mod 10)])"
  by pat_completeness auto
termination
  by (relation "measure id") auto

declare decimal_nat.simps [simp del]

definition decimal :: "int \<Rightarrow> string" where
  "decimal i = (if i < 0 then CHR ''-'' # decimal_nat (nat (- i)) else decimal_nat (nat i))"

function replace_all_str :: "string \<Rightarrow> string \<Rightarrow> string \<Rightarrow> string" where
  "replace_all_str [] search replacement = []"
| "replace_all_str (c # cs) search replacement =
     (if search \<noteq> [] \<and> prefix search (c # cs)
      then replacement @ replace_all_str (drop (length search) (c # cs)) search replacement
      else c # replace_all_str cs search replacement)"
  by pat_completeness auto
termination
  by (relation "measure (\<lambda>(target, search, replacement). length target)") auto

definition replace_all :: "string \<Rightarrow> string \<Rightarrow> int \<Rightarrow> string" where
  "replace_all target search replacement = replace_all_str target search (decimal replacement)"

text \<open>
  \<^verbatim>\<open>struct SnapshotOptions\<close>, with the fields that \<^verbatim>\<open>snapshot_options.cpp\<close> sets
  (the header is not among the sources; the spec gives the kinds of the values). The
  type of \<^verbatim>\<open>emulation_\<close> is a parameter.
\<close>

record 'emu SnapshotOptions =
  folder_path_pattern :: string
  snapshot_trigger_page_pool_percent :: int
  snapshot_interval_milliseconds :: int
  log_mapper_bucket_kb :: int
  log_mapper_io_buffer_kb :: int
  log_reducer_buffer_mb :: int
  emulation :: 'emu

text \<open>\<^verbatim>\<open>std::string SnapshotOptions::convert_folder_path_pattern(int node) const\<close>\<close>

definition convert_folder_path_pattern :: "'emu SnapshotOptions \<Rightarrow> int \<Rightarrow> string" where
  "convert_folder_path_pattern this node =
     replace_all (folder_path_pattern this) ''$NODE$'' node"

text \<open>
  The pieces of a text between the occurrences of a separator, put together again with
  a separator between each two.
\<close>

fun join :: "string \<Rightarrow> string list \<Rightarrow> string" where
  "join sep [] = []"
| "join sep [p] = p"
| "join sep (p # q # ps) = p @ sep @ join sep (q # ps)"

text \<open>
  The macro \<^verbatim>\<open>EXTERNALIZE_LOAD_ELEMENT(element, attribute)\<close> and
  \<^verbatim>\<open>get_child_element\<close> are declared in \<^verbatim>\<open>externalizable.hpp\<close>, which is not among
  the sources. They are parameters of the model: \<open>get_string\<close> and \<open>get_int\<close> read
  the child of the element with the given tag as a string or an integer, \<open>get_child\<close>
  loads the nested block with the given tag; each returns an error (\<open>Inl\<close>) or the value.
  \<^verbatim>\<open>EXTERNALIZE_LOAD_ELEMENT\<close> and \<^verbatim>\<open>CHECK_ERROR\<close> return the error of their call at
  once, leaving the fields set so far. The result of \<open>load\<close> holds the error
  (\<open>None\<close> for \<^verbatim>\<open>kRetOk\<close>) and the object after the call.
\<close>

definition EXTERNALIZE_LOAD_ELEMENT ::
  "('el \<Rightarrow> string \<Rightarrow> 'err + 'v) \<Rightarrow> 'el \<Rightarrow> string \<Rightarrow> ('v \<Rightarrow> 'o \<Rightarrow> 'o)
     \<Rightarrow> ('o \<Rightarrow> 'err option \<times> 'o) \<Rightarrow> 'o \<Rightarrow> 'err option \<times> 'o" where
  "EXTERNALIZE_LOAD_ELEMENT get element tag store rest this =
     (case get element tag of
        Inl e \<Rightarrow> (Some e, this)
      | Inr v \<Rightarrow> rest (store v this))"

definition load ::
  "('el \<Rightarrow> string \<Rightarrow> 'err + string) \<Rightarrow> ('el \<Rightarrow> string \<Rightarrow> 'err + int)
     \<Rightarrow> ('el \<Rightarrow> string \<Rightarrow> 'err + 'emu) \<Rightarrow> 'el
     \<Rightarrow> 'emu SnapshotOptions \<Rightarrow> 'err option \<times> 'emu SnapshotOptions" where
  "load get_string get_int get_child element =
     EXTERNALIZE_LOAD_ELEMENT get_string element ''folder_path_pattern_''
       (\<lambda>v this. this\<lparr>folder_path_pattern := v\<rparr>)
    (EXTERNALIZE_LOAD_ELEMENT get_int element ''snapshot_trigger_page_pool_percent_''
       (\<lambda>v this. this\<lparr>snapshot_trigger_page_pool_percent := v\<rparr>)
    (EXTERNALIZE_LOAD_ELEMENT get_int element ''snapshot_interval_milliseconds_''
       (\<lambda>v this. this\<lparr>snapshot_interval_milliseconds := v\<rparr>)
    (EXTERNALIZE_LOAD_ELEMENT get_int element ''log_mapper_bucket_kb_''
       (\<lambda>v this. this\<lparr>log_mapper_bucket_kb := v\<rparr>)
    (EXTERNALIZE_LOAD_ELEMENT get_int element ''log_mapper_io_buffer_kb_''
       (\<lambda>v this. this\<lparr>log_mapper_io_buffer_kb := v\<rparr>)
    (EXTERNALIZE_LOAD_ELEMENT get_int element ''log_reducer_buffer_mb_''
       (\<lambda>v this. this\<lparr>log_reducer_buffer_mb := v\<rparr>)
    (EXTERNALIZE_LOAD_ELEMENT get_child element ''SnapshotDeviceEmulationOptions''
       (\<lambda>v this. this\<lparr>emulation := v\<rparr>)
    (\<lambda>this. (None, this))))))))"

text \<open>The tags of the integer elements that \<^verbatim>\<open>load\<close> reads.\<close>

definition integer_keys :: "string list" where
  "integer_keys =
     [''snapshot_trigger_page_pool_percent_'', ''snapshot_interval_milliseconds_'',
      ''log_mapper_bucket_kb_'', ''log_mapper_io_buffer_kb_'', ''log_reducer_buffer_mb_'']"

section \<open>The TPC-B test on array storages\<close>

text \<open>
  The constants of \<^verbatim>\<open>test_array_tpcb.cpp\<close>. The balances and amounts are
  \<^verbatim>\<open>int64_t\<close>; with at most 400 amounts of at most 20 each they stay far from the
  bounds of the type, so they are integers here. Ids are \<^verbatim>\<open>uint64_t\<close> below 400,
  naturals here.
\<close>

definition BRANCHES :: nat where "BRANCHES = 8"
definition TELLERS :: nat where "TELLERS = 2"
definition ACCOUNTS :: nat where "ACCOUNTS = 4"
definition ACCOUNTS_PER_TELLER :: nat where "ACCOUNTS_PER_TELLER = ACCOUNTS div TELLERS"
definition MAX_TEST_THREADS :: nat where "MAX_TEST_THREADS = 4"
definition XCTS_PER_THREAD :: nat where "XCTS_PER_THREAD = 100"
definition INITIAL_ACCOUNT_BALANCE :: int where "INITIAL_ACCOUNT_BALANCE = 100"
definition AMOUNT_RANGE_FROM :: int where "AMOUNT_RANGE_FROM = 1"
definition AMOUNT_RANGE_TO :: int where "AMOUNT_RANGE_TO = 20"
definition HISTORIES :: nat where "HISTORIES = XCTS_PER_THREAD * MAX_TEST_THREADS"

text \<open>
  The four record layouts, without their padding. The field \<^verbatim>\<open>branch_id_\<close> of three of
  the structs is named after its struct.
\<close>

record BranchData =
  branch_balance :: int

record TellerData =
  teller_branch_id :: nat
  teller_balance :: int

record AccountData =
  account_branch_id :: nat
  account_balance :: int

record HistoryData =
  history_account_id :: nat
  history_teller_id :: nat
  history_branch_id :: nat
  history_amount :: int

text \<open>The four global array storages.\<close>

record TpcbTables =
  branches :: "BranchData list"
  tellers :: "TellerData list"
  accounts :: "AccountData list"
  histories :: "HistoryData list"

text \<open>
  Modelled from the spec: \<^verbatim>\<open>ArrayStorage::get_record\<close> and
  \<^verbatim>\<open>ArrayStorage::overwrite_record\<close> on a committed transaction (the array storage
  and the transaction manager are not among the sources). The spec: per-record get and
  overwrite either succeed or return an error code; transactions are serializable, so
  the committed transactions act one after the other in commit order, and an aborted
  attempt leaves no trace. \<open>None\<close> is the error of an offset beyond the array.
\<close>

definition get_record :: "'a list \<Rightarrow> nat \<Rightarrow> 'a option" where
  "get_record storage offset = (if offset < length storage then Some (storage ! offset) else None)"

definition overwrite_record :: "'a list \<Rightarrow> nat \<Rightarrow> 'a \<Rightarrow> 'a list option" where
  "overwrite_record storage offset payload =
     (if offset < length storage then Some (storage[offset := payload]) else None)"

text \<open>\<^verbatim>\<open>CreateTpcbTablesTask::run\<close>: the four storages with their initial records.\<close>

definition create_tpcb_tables :: TpcbTables where
  "create_tpcb_tables =
     \<lparr>branches = map (\<lambda>i. \<lparr>branch_balance = INITIAL_ACCOUNT_BALANCE * int ACCOUNTS\<rparr>)
                   [0..<BRANCHES],
      tellers = map (\<lambda>i. \<lparr>teller_branch_id = i div TELLERS,
                          teller_balance = INITIAL_ACCOUNT_BALANCE * int ACCOUNTS_PER_TELLER\<rparr>)
                  [0..<BRANCHES * TELLERS],
      accounts = map (\<lambda>i. \<lparr>account_branch_id = i div ACCOUNTS,
                           account_balance = INITIAL_ACCOUNT_BALANCE\<rparr>)
                   [0..<BRANCHES * ACCOUNTS],
      histories = map (\<lambda>i. \<lparr>history_account_id = 0, history_teller_id = 0,
                            history_branch_id = 0, history_amount = 0\<rparr>)
                    [0..<HISTORIES]\<rparr>"

text \<open>
  \<^verbatim>\<open>RunTpcbTask::try_transaction\<close>, for an attempt that commits: each
  \<^verbatim>\<open>CHECK_ERROR\<close> returns the error of its call. The partial overwrites replace the
  balance field only. The \<^verbatim>\<open>EXPECT_EQ\<close> checks do not change the control flow.
\<close>

definition try_transaction ::
  "TpcbTables \<Rightarrow> nat \<Rightarrow> nat \<Rightarrow> nat \<Rightarrow> nat \<Rightarrow> int \<Rightarrow> TpcbTables option" where
  "try_transaction db branch_id teller_id account_id history_id amount =
     do {
       branch \<leftarrow> get_record (branches db) branch_id;
       let new_branch_balance = branch_balance branch + amount;
       branches' \<leftarrow> overwrite_record (branches db) branch_id
                     (branch\<lparr>branch_balance := new_branch_balance\<rparr>);
       teller \<leftarrow> get_record (tellers db) teller_id;
       let new_teller_balance = teller_balance teller + amount;
       tellers' \<leftarrow> overwrite_record (tellers db) teller_id
                    (teller\<lparr>teller_balance := new_teller_balance\<rparr>);
       account \<leftarrow> get_record (accounts db) account_id;
       let new_account_balance = account_balance account + amount;
       accounts' \<leftarrow> overwrite_record (accounts db) account_id
                     (account\<lparr>account_balance := new_account_balance\<rparr>);
       history \<leftarrow> get_record (histories db) history_id;
       histories' \<leftarrow> overwrite_record (histories db) history_id
                      (history\<lparr>history_account_id := account_id,
                               history_branch_id := branch_id,
                               history_teller_id := teller_id,
                               history_amount := amount\<rparr>);
       Some \<lparr>branches = branches', tellers = tellers', accounts = accounts',
             histories = histories'\<rparr>
     }"

text \<open>
  One iteration of the loop of \<^verbatim>\<open>RunTpcbTask::run\<close>: the task of client
  \<^verbatim>\<open>client_id_\<close>, in its iteration \<^verbatim>\<open>i\<close>, has drawn an account and an amount, and
  retries \<^verbatim>\<open>try_transaction\<close> until it commits.
\<close>

record TpcbXct =
  client_id :: nat
  xct_index :: nat
  drawn_account_id :: nat
  drawn_amount :: int

definition xct_history_id :: "TpcbXct \<Rightarrow> nat" where
  "xct_history_id t = client_id t * XCTS_PER_THREAD + xct_index t"

definition run_xct :: "TpcbTables \<Rightarrow> TpcbXct \<Rightarrow> TpcbTables option" where
  "run_xct db t =
     (let account_id = drawn_account_id t;
          teller_id = account_id div ACCOUNTS_PER_TELLER;
          branch_id = account_id div ACCOUNTS;
          history_id = xct_history_id t
      in try_transaction db branch_id teller_id account_id history_id (drawn_amount t))"

text \<open>The committed transactions of all clients, in commit order.\<close>

fun run_schedule :: "TpcbTables \<Rightarrow> TpcbXct list \<Rightarrow> TpcbTables option" where
  "run_schedule db [] = Some db"
| "run_schedule db (t # ts) = (case run_xct db t of None \<Rightarrow> None
                                | Some db' \<Rightarrow> run_schedule db' ts)"

text \<open>
  Scenario S2: four clients, each committing its 100 transactions, in any interleaving;
  accounts are drawn from all \<^verbatim>\<open>BRANCHES * ACCOUNTS\<close> accounts (the contended case),
  amounts from \<^verbatim>\<open>AMOUNT_RANGE_FROM\<close> to \<^verbatim>\<open>AMOUNT_RANGE_TO\<close>.
\<close>

definition xct_in_range :: "TpcbXct \<Rightarrow> bool" where
  "xct_in_range t \<longleftrightarrow>
     client_id t < MAX_TEST_THREADS \<and> xct_index t < XCTS_PER_THREAD \<and>
     drawn_account_id t < BRANCHES * ACCOUNTS \<and>
     AMOUNT_RANGE_FROM \<le> drawn_amount t \<and> drawn_amount t \<le> AMOUNT_RANGE_TO"

definition scenario_S2 :: "TpcbXct list \<Rightarrow> bool" where
  "scenario_S2 schedule \<longleftrightarrow>
     list_all xct_in_range schedule \<and>
     distinct (map xct_history_id schedule) \<and>
     length schedule = MAX_TEST_THREADS * XCTS_PER_THREAD"

definition sum_branch_balances :: "TpcbTables \<Rightarrow> int" where
  "sum_branch_balances db = sum_list (map branch_balance (branches db))"

definition sum_teller_balances :: "TpcbTables \<Rightarrow> int" where
  "sum_teller_balances db = sum_list (map teller_balance (tellers db))"

definition sum_account_balances :: "TpcbTables \<Rightarrow> int" where
  "sum_account_balances db = sum_list (map account_balance (accounts db))"

definition sum_history_amounts :: "TpcbTables \<Rightarrow> int" where
  "sum_history_amounts db = sum_list (map history_amount (histories db))"

definition sum_amounts :: "TpcbXct list \<Rightarrow> int" where
  "sum_amounts schedule = sum_list (map drawn_amount schedule)"

text \<open>
  A schedule of scenario S2: the transaction with history id \<open>h\<close> belongs to client
  \<open>h div 100\<close>, is its transaction \<open>h mod 100\<close>, and adds 1 to account \<open>h mod 32\<close>.
\<close>

definition uniform_schedule :: "TpcbXct list" where
  "uniform_schedule =
     map (\<lambda>h. \<lparr>client_id = h div 100, xct_index = h mod 100,
                drawn_account_id = h mod 32, drawn_amount = 1\<rparr>) [0..<400]"

text \<open>The sizes of the four storages, which no transaction changes.\<close>

definition table_sizes :: "TpcbTables \<Rightarrow> bool" where
  "table_sizes db \<longleftrightarrow>
     length (branches db) = BRANCHES \<and> length (tellers db) = BRANCHES * TELLERS \<and>
     length (accounts db) = BRANCHES * ACCOUNTS \<and> length (histories db) = HISTORIES"

section \<open>Theorems\<close>

subsection \<open>Epochs within one half of the circle\<close>

text \<open>
  Within a window of \<open>2 ^ 31\<close> epochs the cyclic comparison is the comparison of the
  distances from the start of the window.
\<close>

lemma word_sub_window:
  fixes x y :: u32
  assumes "unat x < 2 ^ 31" "unat y < 2 ^ 31"
  shows "(0 < x - y \<and> x - y < 2 ^ 31) \<longleftrightarrow> unat y < unat x"
  using assms by (auto simp: word_less_nat_alt unat_sub_if' split: if_splits)

lemma before_window:
  assumes "in_window lo a" "in_window lo b"
  shows "Epoch_before a b \<longleftrightarrow> epoch_offset lo a < epoch_offset lo b"
proof -
  have eq: "b - a = (b - lo) - (a - lo)" by simp
  have "unat (b - lo) < 2 ^ 31" "unat (a - lo) < 2 ^ 31"
    using assms by (simp_all add: in_window_def epoch_offset_def)
  from word_sub_window[OF this] show ?thesis
    unfolding Epoch_before_def epoch_offset_def eq .
qed

lemma epoch_offset_inj: "epoch_offset lo a = epoch_offset lo b \<Longrightarrow> a = b"
  by (simp add: epoch_offset_def word_unat_eq_iff[symmetric])

lemma epoch_offset_self [simp]: "epoch_offset lo lo = 0"
  by (simp add: epoch_offset_def)

lemma in_window_self [simp]: "in_window lo lo"
  by (simp add: in_window_def)

lemma epoch_offset_0_iff: "epoch_offset lo e = 0 \<longleftrightarrow> e = lo"
  by (simp add: epoch_offset_def unat_eq_zero)

lemma store_max_window:
  assumes "in_window lo a" "in_window lo b"
  shows "in_window lo (Epoch_store_max a b)"
    and "epoch_offset lo (Epoch_store_max a b) = max (epoch_offset lo a) (epoch_offset lo b)"
  using assms by (auto simp: Epoch_store_max_def before_window max_def dest: epoch_offset_inj)

lemma store_max_commute:
  assumes "in_window lo a" "in_window lo b"
  shows "Epoch_store_max a b = Epoch_store_max b a"
  by (rule epoch_offset_inj[of lo]) (simp add: store_max_window assms max.commute)

lemma store_max_assoc:
  assumes "in_window lo a" "in_window lo b" "in_window lo c"
  shows "Epoch_store_max (Epoch_store_max a b) c = Epoch_store_max a (Epoch_store_max b c)"
  by (rule epoch_offset_inj[of lo]) (simp add: store_max_window assms max.assoc)

lemma store_max_init:
  assumes "in_window lo a"
  shows "Epoch_store_max lo a = a" "Epoch_store_max a lo = a"
  by (rule epoch_offset_inj[of lo], simp add: store_max_window assms)+

lemma combine_in_window:
  "result_in_window args a \<Longrightarrow> result_in_window args b \<Longrightarrow> result_in_window args (combine a b)"
  by (simp add: result_in_window_def combine_def store_max_window)

lemma combine_is_init_iff:
  assumes "result_in_window args a" "result_in_window args b"
  shows "combine a b = DropResult_init args \<longleftrightarrow>
         no_new_modifications args a \<and> no_new_modifications args b"
proof -
  let ?v = "valid_until_epoch (snapshot args)"
  have wa: "in_window ?v (max_observed a)" and wb: "in_window ?v (max_observed b)"
    using assms by (simp_all add: result_in_window_def)
  have "Epoch_store_max (max_observed a) (max_observed b) = ?v
        \<longleftrightarrow> max_observed a = ?v \<and> max_observed b = ?v"
  proof -
    have "Epoch_store_max (max_observed a) (max_observed b) = ?v
          \<longleftrightarrow> epoch_offset ?v (Epoch_store_max (max_observed a) (max_observed b)) = 0"
      by (simp add: epoch_offset_0_iff)
    also have "\<dots> \<longleftrightarrow> epoch_offset ?v (max_observed a) = 0 \<and> epoch_offset ?v (max_observed b) = 0"
      unfolding store_max_window(2)[OF wa wb] by (auto simp: max_def)
    finally show ?thesis by (simp add: epoch_offset_0_iff)
  qed
  then show ?thesis
    by (cases a; cases b) (auto simp: combine_def DropResult_init_def no_new_modifications_def)
qed

lemma no_new_modifications_iff: "no_new_modifications args r \<longleftrightarrow> r = DropResult_init args"
  by (cases r) (auto simp: DropResult_init_def no_new_modifications_def)

lemma foldl_combine_in_window:
  "result_in_window args a \<Longrightarrow> \<forall>r\<in>set rs. result_in_window args r \<Longrightarrow>
   result_in_window args (foldl combine a rs)"
  by (induction rs arbitrary: a) (simp_all add: combine_in_window)

lemma foldl_combine_is_init_iff:
  "result_in_window args a \<Longrightarrow> \<forall>r\<in>set rs. result_in_window args r \<Longrightarrow>
   foldl combine a rs = DropResult_init args \<longleftrightarrow>
   no_new_modifications args a \<and> list_all (no_new_modifications args) rs"
proof (induction rs arbitrary: a)
  case Nil
  then show ?case
    by (simp add: no_new_modifications_iff)
next
  case (Cons r rs)
  then show ?case
    using combine_is_init_iff[of args a r]
    by (simp add: combine_in_window no_new_modifications_iff)
qed

subsection \<open>Combining the results of dropping volatile pages\<close>

text \<open>
  C4, as stated, fails: \<^verbatim>\<open>combine\<close> is not associative on arbitrary epochs. Three
  epochs a third of the circle apart are each before the next, so the maximum taken
  from the left is the third epoch and the maximum taken from the right is the first.
\<close>

theorem combine_not_associative:
  "combine (combine \<lparr>max_observed = 1, dropped_all = True\<rparr>
                    \<lparr>max_observed = 0x55555556, dropped_all = True\<rparr>)
           \<lparr>max_observed = 0xAAAAAAAB, dropped_all = True\<rparr>
   \<noteq> combine \<lparr>max_observed = 1, dropped_all = True\<rparr>
         (combine \<lparr>max_observed = 0x55555556, dropped_all = True\<rparr>
                  \<lparr>max_observed = 0xAAAAAAAB, dropped_all = True\<rparr>)"
  by (simp add: combine_def Epoch_store_max_def Epoch_before_def)

text \<open>
  C4, amended. \<^verbatim>\<open>combine\<close> takes \<^verbatim>\<open>store_max\<close> of the two \<^verbatim>\<open>max_observed_\<close> fields
  and the conjunction of the two \<^verbatim>\<open>dropped_all_\<close> fields. On results whose
  \<^verbatim>\<open>max_observed_\<close> is \<^verbatim>\<open>valid_until_epoch_\<close> or less than \<open>2 ^ 31\<close> epochs after it,
  \<^verbatim>\<open>store_max\<close> is the maximum of the distances from \<^verbatim>\<open>valid_until_epoch_\<close>,
  \<^verbatim>\<open>combine\<close> is commutative and associative, and the freshly constructed result is
  its identity on both sides. The root volatile page is dropped only when every
  partition's result has \<^verbatim>\<open>max_observed_ == valid_until_epoch_\<close> and
  \<^verbatim>\<open>dropped_all_\<close>, which on such results is the case exactly when all of them
  combine to the freshly constructed result.
\<close>

theorem combine_monoid_in_window:
  assumes "result_in_window args a" and "result_in_window args b"
    and "result_in_window args c" and "\<forall>r\<in>set rs. result_in_window args r"
  shows "max_observed (combine a b) = Epoch_store_max (max_observed a) (max_observed b) \<and>
         epoch_offset (valid_until_epoch (snapshot args)) (max_observed (combine a b))
           = max (epoch_offset (valid_until_epoch (snapshot args)) (max_observed a))
                 (epoch_offset (valid_until_epoch (snapshot args)) (max_observed b)) \<and>
         dropped_all (combine a b) = (dropped_all a \<and> dropped_all b) \<and>
         combine a b = combine b a \<and>
         combine (combine a b) c = combine a (combine b c) \<and>
         combine (DropResult_init args) a = a \<and>
         combine a (DropResult_init args) = a \<and>
         (drops_root_volatile args rs \<longleftrightarrow> (\<forall>r\<in>set rs. no_new_modifications args r)) \<and>
         (drops_root_volatile args rs
            \<longleftrightarrow> foldl combine (DropResult_init args) rs = DropResult_init args)"
proof -
  let ?v = "valid_until_epoch (snapshot args)"
  have wa: "in_window ?v (max_observed a)" and wb: "in_window ?v (max_observed b)"
    and wc: "in_window ?v (max_observed c)"
    using assms by (simp_all add: result_in_window_def)
  have wi: "result_in_window args (DropResult_init args)"
    by (simp add: result_in_window_def DropResult_init_def)
  have 1: "max_observed (combine a b) = Epoch_store_max (max_observed a) (max_observed b)"
    and 3: "dropped_all (combine a b) = (dropped_all a \<and> dropped_all b)"
    by (simp_all add: combine_def)
  have 2: "epoch_offset ?v (max_observed (combine a b))
           = max (epoch_offset ?v (max_observed a)) (epoch_offset ?v (max_observed b))"
    by (simp add: combine_def store_max_window(2)[OF wa wb])
  have 4: "combine a b = combine b a"
    using store_max_commute[OF wa wb] by (auto simp: combine_def)
  have 5: "combine (combine a b) c = combine a (combine b c)"
    using store_max_assoc[OF wa wb wc] by (auto simp: combine_def)
  have 6: "combine (DropResult_init args) a = a" and 7: "combine a (DropResult_init args) = a"
    using store_max_init[OF wa] by (simp_all add: combine_def DropResult_init_def)
  have 8: "drops_root_volatile args rs \<longleftrightarrow> (\<forall>r\<in>set rs. no_new_modifications args r)"
    by (simp add: drops_root_volatile_def list_all_iff)
  have 9: "drops_root_volatile args rs
           \<longleftrightarrow> foldl combine (DropResult_init args) rs = DropResult_init args"
    using foldl_combine_is_init_iff[OF wi assms(4)]
    by (simp add: drops_root_volatile_def no_new_modifications_iff)
  from 1 2 3 4 5 6 7 8 9 show ?thesis by blast
qed

text \<open>C4, amended: an instance with \<^verbatim>\<open>valid_until_epoch_ = 10\<close>.\<close>

theorem combine_monoid_in_window_witness:
  "result_in_window \<lparr>snapshot = \<lparr>base_epoch = 5, valid_until_epoch = 10\<rparr>,
                     my_partition = 0, partitioned_drop = True\<rparr>
                    \<lparr>max_observed = 12, dropped_all = False\<rparr> \<and>
   result_in_window \<lparr>snapshot = \<lparr>base_epoch = 5, valid_until_epoch = 10\<rparr>,
                     my_partition = 0, partitioned_drop = True\<rparr>
                    \<lparr>max_observed = 10, dropped_all = True\<rparr> \<and>
   combine (combine \<lparr>max_observed = 12, dropped_all = False\<rparr>
                    \<lparr>max_observed = 10, dropped_all = True\<rparr>)
           \<lparr>max_observed = 10, dropped_all = True\<rparr>
     = combine \<lparr>max_observed = 12, dropped_all = False\<rparr>
         (combine \<lparr>max_observed = 10, dropped_all = True\<rparr>
                  \<lparr>max_observed = 10, dropped_all = True\<rparr>) \<and>
   drops_root_volatile \<lparr>snapshot = \<lparr>base_epoch = 5, valid_until_epoch = 10\<rparr>,
                        my_partition = 0, partitioned_drop = True\<rparr>
                       [\<lparr>max_observed = 10, dropped_all = True\<rparr>]"
proof -
  let ?A = "\<lparr>snapshot = \<lparr>base_epoch = 5, valid_until_epoch = 10\<rparr>,
            my_partition = 0, partitioned_drop = True\<rparr>"
  let ?a = "\<lparr>max_observed = 12, dropped_all = False\<rparr>"
  let ?b = "\<lparr>max_observed = 10, dropped_all = True\<rparr>"
  have ha: "result_in_window ?A ?a" and hb: "result_in_window ?A ?b"
    by (simp_all add: result_in_window_def in_window_def epoch_offset_def)
  have hs: "\<forall>r\<in>set [?b]. result_in_window ?A r"
    using hb by simp
  show ?thesis
    using ha hb combine_monoid_in_window [OF ha hb hb hs]
    by (simp add: DropResult_init_def drops_root_volatile_def no_new_modifications_def)
qed

subsection \<open>The invariant of a result of dropping volatile pages\<close>

text \<open>The invariant carried through the updates, in offsets from \<open>lo\<close>.\<close>

lemma drop_result_ok_window:
  assumes "in_window lo v" "in_window lo (max_observed r)" "v = valid_until_epoch (snapshot args)"
  shows "drop_result_ok args r \<longleftrightarrow>
         epoch_offset lo v \<le> epoch_offset lo (max_observed r) \<and>
         (epoch_offset lo v < epoch_offset lo (max_observed r) \<longrightarrow> \<not> dropped_all r)"
  using assms
  by (auto simp: drop_result_ok_def Epoch_after_def before_window)

lemma apply_update_window:
  assumes v: "in_window lo (valid_until_epoch (snapshot args))"
    and r: "in_window lo (max_observed r)" "drop_result_ok args r"
    and u: "update_in_window lo args u"
  shows "in_window lo (max_observed (apply_update r u)) \<and> drop_result_ok args (apply_update r u)"
proof (cases u)
  case (OnRecObserved e)
  with u have e: "in_window lo e" by simp
  show ?thesis
  proof (cases "Epoch_after e (max_observed r)")
    case True
    then have lt: "epoch_offset lo (max_observed r) < epoch_offset lo e"
      using before_window[OF r(1) e] by (simp add: Epoch_after_def)
    have new: "apply_update r u = r\<lparr>max_observed := e, dropped_all := False\<rparr>"
      using True OnRecObserved by (simp add: on_rec_observed_def)
    have "drop_result_ok args (r\<lparr>max_observed := e, dropped_all := False\<rparr>)"
      using r(2) lt
      by (simp add: drop_result_ok_window[OF v r(1) refl] drop_result_ok_window[OF v _ refl] e)
    with e new show ?thesis by simp
  next
    case False
    then have "apply_update r u = r"
      using OnRecObserved by (simp add: on_rec_observed_def)
    with r show ?thesis by simp
  qed
next
  case (Combine other)
  with u have o: "in_window lo (max_observed other)" "drop_result_ok args other" by simp_all
  have w: "in_window lo (max_observed (combine r other))"
    by (simp add: combine_def store_max_window(1)[OF r(1) o(1)])
  have off: "epoch_offset lo (max_observed (combine r other))
             = max (epoch_offset lo (max_observed r)) (epoch_offset lo (max_observed other))"
    by (simp add: combine_def store_max_window(2)[OF r(1) o(1)])
  have d: "dropped_all (combine r other) = (dropped_all r \<and> dropped_all other)"
    by (simp add: combine_def)
  have "drop_result_ok args (combine r other)"
    using r(2) o(2)
    unfolding drop_result_ok_window[OF v w refl] drop_result_ok_window[OF v r(1) refl]
      drop_result_ok_window[OF v o(1) refl] off d
    by (auto simp: max_def)
  with w Combine show ?thesis by simp
qed

lemma foldl_apply_update_window:
  assumes v: "in_window lo (valid_until_epoch (snapshot args))"
  shows "in_window lo (max_observed r) \<Longrightarrow> drop_result_ok args r \<Longrightarrow>
         \<forall>u\<in>set us. update_in_window lo args u \<Longrightarrow>
         drop_result_ok args (foldl apply_update r us)"
proof (induction us arbitrary: r)
  case Nil
  then show ?case by simp
next
  case (Cons u us)
  from apply_update_window[OF v Cons.prems(1,2), of u] Cons.prems(3)
  have "in_window lo (max_observed (apply_update r u))" "drop_result_ok args (apply_update r u)"
    by simp_all
  from Cons.IH[OF this] Cons.prems(3) show ?case by simp
qed

lemma DropResult_init_ok: "drop_result_ok args (DropResult_init args)"
  by (simp add: drop_result_ok_def DropResult_init_def Epoch_after_def Epoch_before_def)

text \<open>
  C9, as stated, fails: with \<^verbatim>\<open>valid_until_epoch_ = 1\<close>, observing epoch
  \<^verbatim>\<open>0x60000001\<close> and then epoch \<^verbatim>\<open>0xC0000001\<close>, each after the one before it, leaves
  \<^verbatim>\<open>max_observed_ = 0xC0000001\<close>, which is before \<^verbatim>\<open>valid_until_epoch_\<close> in the cyclic
  order.
\<close>

theorem max_observed_wraps_before_valid_until:
  "\<not> drop_result_ok
       \<lparr>snapshot = \<lparr>base_epoch = 1, valid_until_epoch = 1\<rparr>,
        my_partition = 0, partitioned_drop = False\<rparr>
       (run_updates
          \<lparr>snapshot = \<lparr>base_epoch = 1, valid_until_epoch = 1\<rparr>,
           my_partition = 0, partitioned_drop = False\<rparr>
          [OnRecObserved 0x60000001, OnRecObserved 0xC0000001])"
  by code_simp

text \<open>
  C9, amended. When \<^verbatim>\<open>valid_until_epoch_\<close>, every observed epoch and the
  \<^verbatim>\<open>max_observed_\<close> of every combined operand lie within one window of \<open>2 ^ 31\<close>
  epochs (starting at some epoch \<open>lo\<close>), and every combined operand has the property
  itself, then after any sequence of \<^verbatim>\<open>on_rec_observed\<close> and \<^verbatim>\<open>combine\<close> calls on a
  freshly constructed result \<^verbatim>\<open>max_observed_\<close> is not before \<^verbatim>\<open>valid_until_epoch_\<close>,
  and \<^verbatim>\<open>dropped_all_\<close> is false whenever \<^verbatim>\<open>max_observed_\<close> is after it.
\<close>

theorem drop_result_ok_in_window:
  assumes "in_window lo (valid_until_epoch (snapshot args))"
    and "\<forall>u\<in>set us. update_in_window lo args u"
  shows "\<not> Epoch_before (max_observed (run_updates args us)) (valid_until_epoch (snapshot args)) \<and>
         (Epoch_after (max_observed (run_updates args us)) (valid_until_epoch (snapshot args))
            \<longrightarrow> \<not> dropped_all (run_updates args us))"
proof -
  have "in_window lo (max_observed (DropResult_init args))"
    using assms(1) by (simp add: DropResult_init_def)
  from foldl_apply_update_window[OF assms(1) this DropResult_init_ok assms(2)]
  show ?thesis by (simp add: run_updates_def drop_result_ok_def)
qed

text \<open>C9, amended: an instance with \<^verbatim>\<open>valid_until_epoch_ = 10\<close> in the window from 3.\<close>

theorem drop_result_ok_in_window_witness:
  "in_window 3 (valid_until_epoch (snapshot
      \<lparr>snapshot = \<lparr>base_epoch = 5, valid_until_epoch = 10\<rparr>,
       my_partition = 0, partitioned_drop = False\<rparr>)) \<and>
   list_all (update_in_window 3 \<lparr>snapshot = \<lparr>base_epoch = 5, valid_until_epoch = 10\<rparr>,
                                 my_partition = 0, partitioned_drop = False\<rparr>)
     [OnRecObserved 4, OnRecObserved 12, Combine \<lparr>max_observed = 11, dropped_all = False\<rparr>,
      Combine \<lparr>max_observed = 10, dropped_all = True\<rparr>] \<and>
   run_updates \<lparr>snapshot = \<lparr>base_epoch = 5, valid_until_epoch = 10\<rparr>,
                my_partition = 0, partitioned_drop = False\<rparr>
     [OnRecObserved 4, OnRecObserved 12, Combine \<lparr>max_observed = 11, dropped_all = False\<rparr>,
      Combine \<lparr>max_observed = 10, dropped_all = True\<rparr>]
     = \<lparr>max_observed = 12, dropped_all = False\<rparr> \<and>
   Epoch_after 12 10 \<and> \<not> Epoch_before 12 10"
proof -
  let ?A = "\<lparr>snapshot = \<lparr>base_epoch = 5, valid_until_epoch = 10\<rparr>,
            my_partition = 0, partitioned_drop = False\<rparr>"
  let ?us = "[OnRecObserved 4, OnRecObserved 12, Combine \<lparr>max_observed = 11, dropped_all = False\<rparr>,
              Combine \<lparr>max_observed = 10, dropped_all = True\<rparr>]"
  have h1: "in_window 3 (valid_until_epoch (snapshot ?A))"
    by (simp add: in_window_def epoch_offset_def)
  have h2: "\<forall>u\<in>set ?us. update_in_window 3 ?A u"
    by (simp add: in_window_def epoch_offset_def drop_result_ok_def Epoch_after_def
        Epoch_before_def)
  have r: "run_updates ?A ?us = \<lparr>max_observed = 12, dropped_all = False\<rparr>"
    by (simp add: run_updates_def DropResult_init_def on_rec_observed_def combine_def
        Epoch_store_max_def Epoch_after_def Epoch_before_def)
  have h3: "list_all (update_in_window 3 ?A) ?us"
    using h2 by (simp add: list_all_iff)
  show ?thesis
    using h1 h3 r drop_result_ok_in_window [OF h1 h2]
    by (simp add: Epoch_after_def Epoch_before_def)
qed

subsection \<open>Issuing the next transaction id\<close>

lemma ordinal_succ:
  fixes u :: u24
  assumes "u \<noteq> kMaxXctOrdinal"
  shows "0 < u + 1" and "x \<le> u \<Longrightarrow> x < u + 1" and "u < u + 1"
proof -
  have "unat u \<noteq> unat (0xFFFFFF :: u24)"
    using assms unfolding kMaxXctOrdinal_def word_unat_eq_iff by simp
  moreover have "unat u < 2 ^ 24"
    using unsigned_less[of u, where ?'a = nat] by simp
  ultimately have u: "unat (u + 1) = unat u + 1"
    by (simp add: unat_word_ariths)
  show "0 < u + 1" using u by (simp add: word_less_nat_alt)
  show "x \<le> u \<Longrightarrow> x < u + 1" using u by (simp add: word_less_nat_alt word_le_nat_alt)
  show "u < u + 1" using u by (simp add: word_less_nat_alt)
qed

lemma not_after_epoch_before:
  assumes "not_after_epoch e a"
  shows "Epoch_before (epoch a) e \<longleftrightarrow> epoch a \<noteq> e"
proof -
  have "unat (e - epoch a) < 2 ^ 31" using assms by (simp add: not_after_epoch_def)
  then have "e - epoch a < 2 ^ 31" by (simp add: word_less_nat_alt)
  moreover have "0 < e - epoch a \<longleftrightarrow> epoch a \<noteq> e"
    by (auto simp: word_greater_zero_iff)
  ultimately show ?thesis by (simp add: Epoch_before_def)
qed

lemma not_after_epoch_before_next:
  assumes "not_after_epoch e a"
  shows "Epoch_before (epoch a) (e + 1)"
proof -
  have d: "unat (e - epoch a) < 2 ^ 31 - 1" using assms by (simp add: not_after_epoch_def)
  have eq: "e + 1 - epoch a = (e - epoch a) + 1" by simp
  have "unat ((e - epoch a) + 1) = unat (e - epoch a) + 1"
    using d by (simp add: unat_word_ariths)
  then show ?thesis
    using d unfolding Epoch_before_def eq by (simp add: word_less_nat_alt)
qed

lemma unat_neg_u32:
  fixes x :: u32
  assumes "0 < x"
  shows "unat (0 - x) = 2 ^ 32 - unat x"
proof -
  have "0 < unat x" using assms by (simp add: word_less_nat_alt)
  then show ?thesis using unat_sub_if'[of 0 x] by simp
qed

lemma not_after_epoch_not_before:
  assumes "not_after_epoch e a"
  shows "\<not> Epoch_before e (epoch a)"
proof
  assume "Epoch_before e (epoch a)"
  then have b: "0 < epoch a - e" "epoch a - e < 2 ^ 31" by (simp_all add: Epoch_before_def)
  have d: "unat (e - epoch a) < 2 ^ 31 - 1" using assms by (simp add: not_after_epoch_def)
  have "e - epoch a = 0 - (epoch a - e)" by simp
  then have "unat (e - epoch a) = 2 ^ 32 - unat (epoch a - e)"
    using unat_neg_u32[OF b(1)] by simp
  moreover have "unat (epoch a - e) < 2 ^ 31" using b(2) by (simp add: word_less_nat_alt)
  ultimately show False using d by simp
qed

lemma issue_next_id_id2:
  assumes a: "not_after_epoch e a" and b: "not_after_epoch e b"
  defines "id1 \<equiv> XctId_store_max a b"
  defines "id2 \<equiv> (if Epoch_before (epoch id1) e then \<lparr>epoch = e, ordinal = 0\<rparr> else id1)"
  shows "epoch id2 = e" and "ordinal id2 = used_ordinal e a b"
proof -
  have id1: "id1 = a \<or> id1 = b" by (simp add: id1_def XctId_store_max_def)
  then have n1: "not_after_epoch e id1" using a b by auto
  show "epoch id2 = e"
    using not_after_epoch_before[OF n1] by (auto simp: id2_def)
  show "ordinal id2 = used_ordinal e a b"
  proof (cases "epoch a = e")
    case ae: True
    show ?thesis
    proof (cases "epoch b = e")
      case True
      with ae have "id1 = (if ordinal a < ordinal b then b else a)"
        by (simp add: id1_def XctId_store_max_def XctId_before_def Epoch_before_def)
      then show ?thesis
        using ae True not_after_epoch_before[OF n1]
        by (auto simp: id2_def used_ordinal_def ordinal_in_epoch_def max_def)
    next
      case False
      have "\<not> XctId_before a b"
        using ae False not_after_epoch_not_before[OF b] by (simp add: XctId_before_def)
      then have "id1 = a" by (simp add: id1_def XctId_store_max_def)
      then show ?thesis
        using ae False not_after_epoch_before[OF n1]
        by (simp add: id2_def used_ordinal_def ordinal_in_epoch_def max_def)
    qed
  next
    case ae: False
    show ?thesis
    proof (cases "epoch b = e")
      case True
      have "XctId_before a b"
        using ae True not_after_epoch_before[OF a] by (simp add: XctId_before_def)
      then have "id1 = b" by (simp add: id1_def XctId_store_max_def)
      then show ?thesis
        using ae True not_after_epoch_before[OF n1]
        by (simp add: id2_def used_ordinal_def ordinal_in_epoch_def max_def)
    next
      case False
      with ae id1 have "epoch id1 \<noteq> e" by auto
      then show ?thesis
        using ae False not_after_epoch_before[OF n1]
        by (simp add: id2_def used_ordinal_def ordinal_in_epoch_def)
    qed
  qed
qed

lemma before_new_id:
  assumes a: "not_after_epoch e a"
    and le: "ordinal_in_epoch e a \<le> u"
  shows "u \<noteq> kMaxXctOrdinal \<Longrightarrow> XctId_before a \<lparr>epoch = e, ordinal = u + 1\<rparr>"
    and "XctId_before a \<lparr>epoch = e + 1, ordinal = 1\<rparr>"
proof -
  show "XctId_before a \<lparr>epoch = e + 1, ordinal = 1\<rparr>"
    using not_after_epoch_before_next[OF a] by (simp add: XctId_before_def)
  assume u: "u \<noteq> kMaxXctOrdinal"
  show "XctId_before a \<lparr>epoch = e, ordinal = u + 1\<rparr>"
  proof (cases "epoch a = e")
    case True
    then have "ordinal a \<le> u" using le by (simp add: ordinal_in_epoch_def)
    from ordinal_succ(2)[OF u this] True show ?thesis by (simp add: XctId_before_def)
  next
    case False
    then show ?thesis using not_after_epoch_before[OF a] by (simp add: XctId_before_def)
  qed
qed

text \<open>
  C1, as stated, fails at the edge of the comparison window. With \<^verbatim>\<open>id_\<close> in epoch 1,
  \<^verbatim>\<open>max_xct_id\<close> = (\<^verbatim>\<open>0x80000000\<close>, \<^verbatim>\<open>0xFFFFFF\<close>) and the input epoch
  \<^verbatim>\<open>0x80000000\<close>, \<^verbatim>\<open>id_\<close> is before \<^verbatim>\<open>max_xct_id\<close>, the ordinal is full, and the id of
  the next epoch, (\<^verbatim>\<open>0x80000001\<close>, 1), is \<open>2 ^ 31\<close> epochs after \<^verbatim>\<open>id_\<close>, which is no
  longer "after" in the cyclic order: the assertion of \<^verbatim>\<open>remember_previous_xct_id\<close>
  fails.
\<close>

theorem issue_next_id_fails_at_window_edge:
  "XctId_before \<lparr>epoch = 1, ordinal = 5\<rparr> \<lparr>epoch = 0x80000000, ordinal = 0xFFFFFF\<rparr> \<and>
   issue_next_id \<lparr>epoch = 0x80000000, ordinal = 0xFFFFFF\<rparr> 0x80000000
     \<lparr>local_work_memory = 4096, local_work_memory_size = 1024, local_work_memory_cur = 0,
      xct_id = \<lparr>epoch = 1, ordinal = 5\<rparr>, isolation_level = kSerializable, active = True,
      mcs_block_current = 0, read_set_size = 1, write_set_size = 1,
      lock_free_write_set_size = 0, pointer_set = [], pointer_set_size = 0,
      page_version_set = [], page_version_set_size = 0, current_lock_list = [],
      retrospective_lock_list = []\<rparr>
   = Inl AssertionFailed \<and>
   \<not> XctId_before \<lparr>epoch = 1, ordinal = 5\<rparr> \<lparr>epoch = 0x80000000 + 1, ordinal = 1\<rparr>"
  by code_simp

text \<open>
  C1, amended. When neither the input epoch nor its successor is the reserved invalid
  epoch, and the epochs of \<^verbatim>\<open>id_\<close> and of \<^verbatim>\<open>max_xct_id\<close> are the input epoch or at most
  \<open>2 ^ 31 - 2\<close> epochs before it, \<^verbatim>\<open>issue_next_id\<close> does not fail; the issued id is
  stored in \<^verbatim>\<open>id_\<close>, is strictly greater than the previous \<^verbatim>\<open>id_\<close> and than
  \<^verbatim>\<open>max_xct_id\<close>, and its epoch is the output epoch, which is the input epoch or after
  it. When the largest ordinal used in the input epoch is \<^verbatim>\<open>0xFFFFFF\<close>, the output epoch is
  the input epoch plus 1 and the ordinal is 1; otherwise the output epoch is the input
  epoch and the ordinal is that largest ordinal plus 1.
\<close>

theorem issue_next_id_in_window:
  assumes e: "e \<noteq> kEpochInvalid" and e1: "e + 1 \<noteq> kEpochInvalid"
    and a: "not_after_epoch e (xct_id x)" and b: "not_after_epoch e max_xct_id"
  shows "\<exists>x' epoch_out.
           issue_next_id max_xct_id e x = Inr (x', epoch_out) \<and>
           x' = x\<lparr>xct_id := xct_id x'\<rparr> \<and>
           XctId_before (xct_id x) (xct_id x') \<and>
           XctId_before max_xct_id (xct_id x') \<and>
           epoch (xct_id x') = epoch_out \<and>
           (epoch_out = e \<or> Epoch_before e epoch_out) \<and>
           (used_ordinal e (xct_id x) max_xct_id = kMaxXctOrdinal
              \<longrightarrow> epoch_out = e + 1 \<and> ordinal (xct_id x') = 1) \<and>
           (used_ordinal e (xct_id x) max_xct_id \<noteq> kMaxXctOrdinal
              \<longrightarrow> epoch_out = e \<and>
                  ordinal (xct_id x') = used_ordinal e (xct_id x) max_xct_id + 1)"
proof -
  let ?u = "used_ordinal e (xct_id x) max_xct_id"
  let ?id1 = "XctId_store_max (xct_id x) max_xct_id"
  let ?id2 = "if Epoch_before (epoch ?id1) e then \<lparr>epoch = e, ordinal = 0\<rparr> else ?id1"
  have id2: "epoch ?id2 = e" "ordinal ?id2 = ?u"
    using issue_next_id_id2[OF a b] by simp_all
  have la: "ordinal_in_epoch e (xct_id x) \<le> ?u" and lb: "ordinal_in_epoch e max_xct_id \<le> ?u"
    by (simp_all add: used_ordinal_def)
  have next_epoch: "Epoch_before e (e + 1)"
    by (simp add: Epoch_before_def)
  show ?thesis
  proof (cases "?u = kMaxXctOrdinal")
    case True
    let ?new = "\<lparr>epoch = e + 1, ordinal = 1\<rparr> :: XctId"
    have r: "remember_previous_xct_id ?new x = Inr (x\<lparr>xct_id := ?new\<rparr>)"
      using before_new_id(2)[OF a la] e1
      by (simp add: remember_previous_xct_id_def XctId_is_valid_def)
    have "issue_next_id max_xct_id e x = Inr (x\<lparr>xct_id := ?new\<rparr>, e + 1)"
      using True r id2(2) unfolding issue_next_id_def Let_def by simp
    then show ?thesis
      using True before_new_id(2)[OF a la] before_new_id(2)[OF b lb] next_epoch by simp
  next
    case False
    let ?new = "\<lparr>epoch = e, ordinal = ?u + 1\<rparr> :: XctId"
    have new: "?id2\<lparr>ordinal := ordinal ?id2 + 1\<rparr> = ?new"
      using id2 by (cases ?id2) simp
    have r: "remember_previous_xct_id ?new x = Inr (x\<lparr>xct_id := ?new\<rparr>)"
      using before_new_id(1)[OF a la False] e ordinal_succ(1)[OF False]
      by (simp add: remember_previous_xct_id_def XctId_is_valid_def)
    have "issue_next_id max_xct_id e x = Inr (x\<lparr>xct_id := ?new\<rparr>, e)"
      using False r id2(2) new unfolding issue_next_id_def Let_def by simp
    then show ?thesis
      using False before_new_id(1)[OF a la False] before_new_id(1)[OF b lb False] by simp
  qed
qed

text \<open>C1, amended: an instance in epoch 3 with a full ordinal.\<close>

theorem issue_next_id_in_window_witness:
  "(3 :: Epoch) \<noteq> kEpochInvalid \<and> (3 :: Epoch) + 1 \<noteq> kEpochInvalid \<and>
   not_after_epoch 3 \<lparr>epoch = 1, ordinal = 5\<rparr> \<and>
   not_after_epoch 3 \<lparr>epoch = 3, ordinal = 0xFFFFFF\<rparr> \<and>
   used_ordinal 3 \<lparr>epoch = 1, ordinal = 5\<rparr> \<lparr>epoch = 3, ordinal = 0xFFFFFF\<rparr> = kMaxXctOrdinal \<and>
   (\<exists>x'. issue_next_id \<lparr>epoch = 3, ordinal = 0xFFFFFF\<rparr> 3
     \<lparr>local_work_memory = 4096, local_work_memory_size = 1024, local_work_memory_cur = 0,
      xct_id = \<lparr>epoch = 1, ordinal = 5\<rparr>, isolation_level = kSerializable, active = True,
      mcs_block_current = 0, read_set_size = 1, write_set_size = 1,
      lock_free_write_set_size = 0, pointer_set = [], pointer_set_size = 0,
      page_version_set = [], page_version_set_size = 0, current_lock_list = [],
      retrospective_lock_list = []\<rparr>
     = Inr (x', 4) \<and> xct_id x' = \<lparr>epoch = 4, ordinal = 1\<rparr>)"
proof -
  let ?x = "\<lparr>local_work_memory = 4096, local_work_memory_size = 1024, local_work_memory_cur = 0,
      xct_id = \<lparr>epoch = 1, ordinal = 5\<rparr>, isolation_level = kSerializable, active = True,
      mcs_block_current = 0, read_set_size = 1, write_set_size = 1,
      lock_free_write_set_size = 0, pointer_set = [], pointer_set_size = 0,
      page_version_set = [], page_version_set_size = 0, current_lock_list = [],
      retrospective_lock_list = []\<rparr>"
  let ?m = "\<lparr>epoch = 3, ordinal = 0xFFFFFF\<rparr> :: XctId"
  have h1: "(3 :: Epoch) \<noteq> kEpochInvalid" and h2: "(3 :: Epoch) + 1 \<noteq> kEpochInvalid"
    by (simp_all add: kEpochInvalid_def)
  have h3: "not_after_epoch 3 (xct_id ?x)" and h4: "not_after_epoch 3 ?m"
    by (simp_all add: not_after_epoch_def)
  have u: "used_ordinal 3 (xct_id ?x) ?m = kMaxXctOrdinal"
    by (simp add: used_ordinal_def ordinal_in_epoch_def kMaxXctOrdinal_def)
  from issue_next_id_in_window [OF h1 h2 h3 h4] u
  obtain x' epoch_out where r: "issue_next_id ?m 3 ?x = Inr (x', epoch_out)"
    "epoch (xct_id x') = epoch_out" "epoch_out = 3 + 1" "ordinal (xct_id x') = 1"
    by blast
  then have "xct_id x' = \<lparr>epoch = 4, ordinal = 1\<rparr>" by (cases "xct_id x'") simp
  with r h1 h2 h3 h4 u show ?thesis by simp
qed

subsection \<open>Activating a transaction\<close>

text \<open>
  C2. On a transaction that is not active, \<^verbatim>\<open>activate(isolation_level)\<close> does not fail
  and leaves the transaction active, at the given isolation level, with the read, write,
  lock-free write, pointer and page version sets empty, no MCS block and no work memory in
  use. The RLL is unchanged. With an empty RLL the CLL is empty; with a non-empty RLL the
  CLL has one entry for each RLL entry, in the same order, with the same lock id and
  preferred mode, and no lock taken.
\<close>

theorem activate_clears_and_prepopulates:
  assumes "\<not> active x"
  shows "\<exists>x'. activate level x = Inr x' \<and>
           active x' \<and> isolation_level x' = level \<and>
           read_set_size x' = 0 \<and> write_set_size x' = 0 \<and>
           lock_free_write_set_size x' = 0 \<and>
           pointer_set_size x' = 0 \<and> pointer_set_entries x' = [] \<and>
           page_version_set_size x' = 0 \<and> page_version_set_entries x' = [] \<and>
           mcs_block_current x' = 0 \<and> local_work_memory_cur x' = 0 \<and>
           retrospective_lock_list x' = retrospective_lock_list x \<and>
           (retrospective_lock_list x = [] \<longrightarrow> current_lock_list x' = []) \<and>
           (retrospective_lock_list x \<noteq> [] \<longrightarrow>
              length (current_lock_list x') = length (retrospective_lock_list x) \<and>
              map universal_lock_id (current_lock_list x')
                = map universal_lock_id (retrospective_lock_list x) \<and>
              map preferred_mode (current_lock_list x')
                = map preferred_mode (retrospective_lock_list x) \<and>
              (\<forall>l\<in>set (current_lock_list x'). taken_mode l = kNoLock))"
  using assms
  by (simp add: activate_def Let_def is_empty_def clear_entries_def
      prepopulate_for_retrospective_lock_list_def pointer_set_entries_def
      page_version_set_entries_def comp_def)

text \<open>C2: an instance with two RLL entries.\<close>

theorem activate_clears_and_prepopulates_witness:
  "\<not> active
     \<lparr>local_work_memory = 4096, local_work_memory_size = 1024, local_work_memory_cur = 16,
      xct_id = \<lparr>epoch = 1, ordinal = 5\<rparr>, isolation_level = kSerializable, active = False,
      mcs_block_current = 3, read_set_size = 2, write_set_size = 1,
      lock_free_write_set_size = 1,
      pointer_set = [\<lparr>address = 64, observed = 1\<rparr>], pointer_set_size = 1,
      page_version_set = [\<lparr>version_address = 128, observed_status = 2\<rparr>],
      page_version_set_size = 1,
      current_lock_list = [],
      retrospective_lock_list = [\<lparr>universal_lock_id = 7, preferred_mode = kWriteLock\<rparr>,
                                 \<lparr>universal_lock_id = 9, preferred_mode = kReadLock\<rparr>]\<rparr> \<and>
   activate kSnapshot
     \<lparr>local_work_memory = 4096, local_work_memory_size = 1024, local_work_memory_cur = 16,
      xct_id = \<lparr>epoch = 1, ordinal = 5\<rparr>, isolation_level = kSerializable, active = False,
      mcs_block_current = 3, read_set_size = 2, write_set_size = 1,
      lock_free_write_set_size = 1,
      pointer_set = [\<lparr>address = 64, observed = 1\<rparr>], pointer_set_size = 1,
      page_version_set = [\<lparr>version_address = 128, observed_status = 2\<rparr>],
      page_version_set_size = 1,
      current_lock_list = [],
      retrospective_lock_list = [\<lparr>universal_lock_id = 7, preferred_mode = kWriteLock\<rparr>,
                                 \<lparr>universal_lock_id = 9, preferred_mode = kReadLock\<rparr>]\<rparr>
   = Inr
     \<lparr>local_work_memory = 4096, local_work_memory_size = 1024, local_work_memory_cur = 0,
      xct_id = \<lparr>epoch = 1, ordinal = 5\<rparr>, isolation_level = kSnapshot, active = True,
      mcs_block_current = 0, read_set_size = 0, write_set_size = 0,
      lock_free_write_set_size = 0,
      pointer_set = [\<lparr>address = 64, observed = 1\<rparr>], pointer_set_size = 0,
      page_version_set = [\<lparr>version_address = 128, observed_status = 2\<rparr>],
      page_version_set_size = 0,
      current_lock_list =
        [\<lparr>universal_lock_id = 7, preferred_mode = kWriteLock, taken_mode = kNoLock\<rparr>,
         \<lparr>universal_lock_id = 9, preferred_mode = kReadLock, taken_mode = kNoLock\<rparr>],
      retrospective_lock_list = [\<lparr>universal_lock_id = 7, preferred_mode = kWriteLock\<rparr>,
                                 \<lparr>universal_lock_id = 9, preferred_mode = kReadLock\<rparr>]\<rparr>"
proof -
  let ?x = "\<lparr>local_work_memory = 4096, local_work_memory_size = 1024, local_work_memory_cur = 16,
      xct_id = \<lparr>epoch = 1, ordinal = 5\<rparr>, isolation_level = kSerializable, active = False,
      mcs_block_current = 3, read_set_size = 2, write_set_size = 1,
      lock_free_write_set_size = 1,
      pointer_set = [\<lparr>address = 64, observed = 1\<rparr>], pointer_set_size = 1,
      page_version_set = [\<lparr>version_address = 128, observed_status = 2\<rparr>],
      page_version_set_size = 1,
      current_lock_list = [],
      retrospective_lock_list = [\<lparr>universal_lock_id = 7, preferred_mode = kWriteLock\<rparr>,
                                 \<lparr>universal_lock_id = 9, preferred_mode = kReadLock\<rparr>]\<rparr>"
  have h: "\<not> active ?x" by simp
  show ?thesis
    using h activate_clears_and_prepopulates [OF h, of kSnapshot]
    by (simp add: activate_def Let_def is_empty_def clear_entries_def
        prepopulate_for_retrospective_lock_list_def)
qed

subsection \<open>The bound of the pointer set and the page version set\<close>

lemma u32_succ_le:
  fixes n :: u32
  assumes "n < 1024"
  shows "n + 1 \<le> 1024" and "unat (n + 1) = unat n + 1"
proof -
  have "unat n < 1024" using assms by (simp add: word_less_nat_alt)
  then show u: "unat (n + 1) = unat n + 1" by (simp add: unat_word_ariths)
  show "n + 1 \<le> 1024" using u \<open>unat n < 1024\<close> by (simp add: word_le_nat_alt)
qed

lemma sets_bounded_step:
  assumes "pointer_set_size x \<le> kMaxPointerSets"
    and "page_version_set_size x \<le> kMaxPageVersionSets"
  shows "kMaxPointerSets = 1024 \<and> kMaxPageVersionSets = 1024 \<and>
         length (pointer_set_entries x) \<le> 1024 \<and>
         length (page_version_set_entries x) \<le> 1024 \<and>
         pointer_set_size (snd (add_to_pointer_set a ob x)) \<le> kMaxPointerSets \<and>
         page_version_set_size (snd (add_to_pointer_set a ob x)) \<le> kMaxPageVersionSets \<and>
         pointer_set_size (snd (add_to_page_version_set a ob x)) \<le> kMaxPointerSets \<and>
         page_version_set_size (snd (add_to_page_version_set a ob x)) \<le> kMaxPageVersionSets \<and>
         (pointer_set_size x = kMaxPointerSets
            \<longrightarrow> add_to_pointer_set a ob x = (kErrorCodeXctTooManyReads, x)) \<and>
         (pointer_set_size x < kMaxPointerSets
            \<longrightarrow> fst (add_to_pointer_set a ob x) = kErrorCodeOk \<and>
                pointer_set_size (snd (add_to_pointer_set a ob x)) = pointer_set_size x + 1) \<and>
         (page_version_set_size x = kMaxPageVersionSets
            \<longrightarrow> add_to_page_version_set a ob x = (kErrorCodeXctTooManyReads, x)) \<and>
         (page_version_set_size x < kMaxPageVersionSets
            \<longrightarrow> fst (add_to_page_version_set a ob x) = kErrorCodeOk \<and>
                page_version_set_size (snd (add_to_page_version_set a ob x))
                  = page_version_set_size x + 1)"
proof -
  have p: "pointer_set_size x \<le> 1024" and v: "page_version_set_size x \<le> 1024"
    using assms by (simp_all add: kMaxPointerSets_def kMaxPageVersionSets_def)
  have lp: "length (pointer_set_entries x) \<le> 1024"
    using p by (simp add: pointer_set_entries_def word_le_nat_alt)
  have lv: "length (page_version_set_entries x) \<le> 1024"
    using v by (simp add: page_version_set_entries_def word_le_nat_alt)
  have 1: "pointer_set_size (snd (add_to_pointer_set a ob x)) \<le> 1024"
    using p u32_succ_le(1)[of "pointer_set_size x"]
    by (auto simp: add_to_pointer_set_def kMaxPointerSets_def not_le)
  have 2: "page_version_set_size (snd (add_to_pointer_set a ob x)) \<le> 1024"
    using v by (simp add: add_to_pointer_set_def)
  have 3: "pointer_set_size (snd (add_to_page_version_set a ob x)) \<le> 1024"
    using p by (simp add: add_to_page_version_set_def)
  have 4: "page_version_set_size (snd (add_to_page_version_set a ob x)) \<le> 1024"
    using v u32_succ_le(1)[of "page_version_set_size x"]
    by (auto simp: add_to_page_version_set_def kMaxPageVersionSets_def not_le)
  have 5: "pointer_set_size x = 1024
           \<longrightarrow> add_to_pointer_set a ob x = (kErrorCodeXctTooManyReads, x)"
    by (simp add: add_to_pointer_set_def kMaxPointerSets_def)
  have 6: "pointer_set_size x < 1024
           \<longrightarrow> fst (add_to_pointer_set a ob x) = kErrorCodeOk \<and>
               pointer_set_size (snd (add_to_pointer_set a ob x)) = pointer_set_size x + 1"
    by (auto simp: add_to_pointer_set_def kMaxPointerSets_def)
  have 7: "page_version_set_size x = 1024
           \<longrightarrow> add_to_page_version_set a ob x = (kErrorCodeXctTooManyReads, x)"
    by (simp add: add_to_page_version_set_def kMaxPageVersionSets_def)
  have 8: "page_version_set_size x < 1024
           \<longrightarrow> fst (add_to_page_version_set a ob x) = kErrorCodeOk \<and>
               page_version_set_size (snd (add_to_page_version_set a ob x))
                 = page_version_set_size x + 1"
    by (auto simp: add_to_page_version_set_def kMaxPageVersionSets_def)
  from lp lv 1 2 3 4 5 6 7 8 show ?thesis
    by (simp add: kMaxPointerSets_def kMaxPageVersionSets_def)
qed

lemma do_set_call_bounded:
  assumes "pointer_set_size x \<le> kMaxPointerSets"
    and "page_version_set_size x \<le> kMaxPageVersionSets"
  shows "pointer_set_size (do_set_call x c) \<le> kMaxPointerSets \<and>
         page_version_set_size (do_set_call x c) \<le> kMaxPageVersionSets"
proof (cases c)
  case (AddToPointerSet a ob)
  then show ?thesis using sets_bounded_step[OF assms, of a ob] by simp
next
  case (AddToPageVersionSet a ob)
  then show ?thesis using sets_bounded_step[OF assms, of a ob] by simp
qed

lemma foldl_do_set_call_bounded:
  "pointer_set_size x \<le> kMaxPointerSets \<Longrightarrow>
   page_version_set_size x \<le> kMaxPageVersionSets \<Longrightarrow>
   pointer_set_size (foldl do_set_call x cs) \<le> kMaxPointerSets \<and>
   page_version_set_size (foldl do_set_call x cs) \<le> kMaxPageVersionSets"
proof (induction cs arbitrary: x)
  case Nil
  then show ?case by simp
next
  case (Cons c cs)
  from do_set_call_bounded[OF Cons.prems, of c] Cons.IH[of "do_set_call x c"]
  show ?case by simp
qed

lemma activate_sets_empty:
  assumes "activate level x0 = Inr x1"
  shows "pointer_set_size x1 = 0" and "page_version_set_size x1 = 0"
  using assms
  by (auto simp: activate_def Let_def split: if_splits)

text \<open>
  C5. In every state a transaction reaches from \<^verbatim>\<open>activate\<close> by calls of
  \<^verbatim>\<open>add_to_pointer_set\<close> and \<^verbatim>\<open>add_to_page_version_set\<close>, each of the two sets holds
  at most 1024 entries (\<^verbatim>\<open>kMaxPointerSets\<close>, \<^verbatim>\<open>kMaxPageVersionSets\<close>). A call on a full
  set returns \<^verbatim>\<open>XCT_TOO_MANY_READS\<close> and leaves the transaction as it was; a call on a
  set that is not full returns \<^verbatim>\<open>kErrorCodeOk\<close> and adds one entry.
\<close>

theorem pointer_and_page_version_sets_bounded:
  assumes "activate level x0 = Inr x1"
    and "x = foldl do_set_call x1 calls"
  shows "kMaxPointerSets = 1024 \<and> kMaxPageVersionSets = 1024 \<and>
         pointer_set_size x \<le> kMaxPointerSets \<and>
         page_version_set_size x \<le> kMaxPageVersionSets \<and>
         length (pointer_set_entries x) \<le> 1024 \<and>
         length (page_version_set_entries x) \<le> 1024 \<and>
         (pointer_set_size x = kMaxPointerSets
            \<longrightarrow> add_to_pointer_set a ob x = (kErrorCodeXctTooManyReads, x)) \<and>
         (pointer_set_size x < kMaxPointerSets
            \<longrightarrow> fst (add_to_pointer_set a ob x) = kErrorCodeOk \<and>
                pointer_set_size (snd (add_to_pointer_set a ob x)) = pointer_set_size x + 1) \<and>
         (page_version_set_size x = kMaxPageVersionSets
            \<longrightarrow> add_to_page_version_set a ob x = (kErrorCodeXctTooManyReads, x)) \<and>
         (page_version_set_size x < kMaxPageVersionSets
            \<longrightarrow> fst (add_to_page_version_set a ob x) = kErrorCodeOk \<and>
                page_version_set_size (snd (add_to_page_version_set a ob x))
                  = page_version_set_size x + 1)"
proof -
  have "pointer_set_size x1 \<le> kMaxPointerSets"
    and "page_version_set_size x1 \<le> kMaxPageVersionSets"
    using activate_sets_empty[OF assms(1)] by simp_all
  from foldl_do_set_call_bounded[OF this, of calls]
  have b: "pointer_set_size x \<le> kMaxPointerSets"
    "page_version_set_size x \<le> kMaxPageVersionSets"
    using assms(2) by simp_all
  from sets_bounded_step[OF b, of a ob] b show ?thesis by blast
qed

text \<open>C5: an instance with one call of each kind after \<^verbatim>\<open>activate\<close>.\<close>

theorem pointer_and_page_version_sets_bounded_witness:
  "activate kSerializable
     \<lparr>local_work_memory = 4096, local_work_memory_size = 1024, local_work_memory_cur = 16,
      xct_id = \<lparr>epoch = 1, ordinal = 5\<rparr>, isolation_level = kSerializable, active = False,
      mcs_block_current = 0, read_set_size = 0, write_set_size = 0,
      lock_free_write_set_size = 0,
      pointer_set = [\<lparr>address = 0, observed = 0\<rparr>, \<lparr>address = 0, observed = 0\<rparr>],
      pointer_set_size = 2,
      page_version_set = [\<lparr>version_address = 0, observed_status = 0\<rparr>],
      page_version_set_size = 1,
      current_lock_list = [], retrospective_lock_list = []\<rparr>
   = Inr
     \<lparr>local_work_memory = 4096, local_work_memory_size = 1024, local_work_memory_cur = 0,
      xct_id = \<lparr>epoch = 1, ordinal = 5\<rparr>, isolation_level = kSerializable, active = True,
      mcs_block_current = 0, read_set_size = 0, write_set_size = 0,
      lock_free_write_set_size = 0,
      pointer_set = [\<lparr>address = 0, observed = 0\<rparr>, \<lparr>address = 0, observed = 0\<rparr>],
      pointer_set_size = 0,
      page_version_set = [\<lparr>version_address = 0, observed_status = 0\<rparr>],
      page_version_set_size = 0,
      current_lock_list = [], retrospective_lock_list = []\<rparr> \<and>
   foldl do_set_call
     \<lparr>local_work_memory = 4096, local_work_memory_size = 1024, local_work_memory_cur = 0,
      xct_id = \<lparr>epoch = 1, ordinal = 5\<rparr>, isolation_level = kSerializable, active = True,
      mcs_block_current = 0, read_set_size = 0, write_set_size = 0,
      lock_free_write_set_size = 0,
      pointer_set = [\<lparr>address = 0, observed = 0\<rparr>, \<lparr>address = 0, observed = 0\<rparr>],
      pointer_set_size = 0,
      page_version_set = [\<lparr>version_address = 0, observed_status = 0\<rparr>],
      page_version_set_size = 0,
      current_lock_list = [], retrospective_lock_list = []\<rparr>
     [AddToPointerSet 64 7, AddToPageVersionSet 128 9]
   = \<lparr>local_work_memory = 4096, local_work_memory_size = 1024, local_work_memory_cur = 0,
      xct_id = \<lparr>epoch = 1, ordinal = 5\<rparr>, isolation_level = kSerializable, active = True,
      mcs_block_current = 0, read_set_size = 0, write_set_size = 0,
      lock_free_write_set_size = 0,
      pointer_set = [\<lparr>address = 64, observed = 7\<rparr>, \<lparr>address = 0, observed = 0\<rparr>],
      pointer_set_size = 1,
      page_version_set = [\<lparr>version_address = 128, observed_status = 9\<rparr>],
      page_version_set_size = 1,
      current_lock_list = [], retrospective_lock_list = []\<rparr> \<and>
   (1 :: u32) \<le> kMaxPointerSets \<and> (1 :: u32) \<le> kMaxPageVersionSets"
proof -
  let ?inactive = "\<lparr>local_work_memory = 4096, local_work_memory_size = 1024, local_work_memory_cur = 16,
      xct_id = \<lparr>epoch = 1, ordinal = 5\<rparr>, isolation_level = kSerializable, active = False,
      mcs_block_current = 0, read_set_size = 0, write_set_size = 0,
      lock_free_write_set_size = 0,
      pointer_set = [\<lparr>address = 0, observed = 0\<rparr>, \<lparr>address = 0, observed = 0\<rparr>],
      pointer_set_size = 2,
      page_version_set = [\<lparr>version_address = 0, observed_status = 0\<rparr>],
      page_version_set_size = 1,
      current_lock_list = [], retrospective_lock_list = []\<rparr>"
  let ?activated = "\<lparr>local_work_memory = 4096, local_work_memory_size = 1024, local_work_memory_cur = 0,
      xct_id = \<lparr>epoch = 1, ordinal = 5\<rparr>, isolation_level = kSerializable, active = True,
      mcs_block_current = 0, read_set_size = 0, write_set_size = 0,
      lock_free_write_set_size = 0,
      pointer_set = [\<lparr>address = 0, observed = 0\<rparr>, \<lparr>address = 0, observed = 0\<rparr>],
      pointer_set_size = 0,
      page_version_set = [\<lparr>version_address = 0, observed_status = 0\<rparr>],
      page_version_set_size = 0,
      current_lock_list = [], retrospective_lock_list = []\<rparr>"
  let ?after = "\<lparr>local_work_memory = 4096, local_work_memory_size = 1024, local_work_memory_cur = 0,
      xct_id = \<lparr>epoch = 1, ordinal = 5\<rparr>, isolation_level = kSerializable, active = True,
      mcs_block_current = 0, read_set_size = 0, write_set_size = 0,
      lock_free_write_set_size = 0,
      pointer_set = [\<lparr>address = 64, observed = 7\<rparr>, \<lparr>address = 0, observed = 0\<rparr>],
      pointer_set_size = 1,
      page_version_set = [\<lparr>version_address = 128, observed_status = 9\<rparr>],
      page_version_set_size = 1,
      current_lock_list = [], retrospective_lock_list = []\<rparr>"
  have h1: "activate kSerializable ?inactive = Inr ?activated"
    by (simp add: activate_def Let_def is_empty_def clear_entries_def)
  have h2: "?after = foldl do_set_call ?activated [AddToPointerSet 64 7, AddToPageVersionSet 128 9]"
    by (simp add: add_to_pointer_set_def add_to_page_version_set_def kMaxPointerSets_def
        kMaxPageVersionSets_def)
  have b: "(1 :: u32) \<le> kMaxPointerSets \<and> (1 :: u32) \<le> kMaxPageVersionSets"
    using pointer_and_page_version_sets_bounded [OF h1 h2, of 0 0] by simp
  from h1 h2 [symmetric] b show ?thesis by blast
qed

subsection \<open>Waiting for the next epoch\<close>

lemma cond_wait_iff:
  "cond_wait next_epoch obs \<longleftrightarrow> list_ex (\<lambda>(processing, stop). processing = next_epoch \<or> stop) obs"
  by (induction obs) (auto split: if_splits)

text \<open>
  C6. When its assertions hold, \<^verbatim>\<open>wait_for_next_epoch\<close> first reads the next processing
  epoch and then increments the completed count; it wakes the gleaner exactly when the
  incremented count equals \<^verbatim>\<open>all_count\<close>; when the next epoch is after the snapshot's
  \<^verbatim>\<open>valid_until_epoch_\<close> it returns false without waiting; otherwise it waits on the
  condition variable of the next epoch, and the wait ends the first time the parent's
  processing epoch is the next epoch or stop is requested (it never ends if that never
  happens), after which it returns true exactly when \<^verbatim>\<open>is_stop_requested()\<close> is then
  false.
\<close>

theorem wait_for_next_epoch_protocol:
  assumes "completed_count w + 1 \<le> all_count w"
    and "completed_count w + 1 = all_count w
         \<longrightarrow> all_completed w \<or> processing_epoch w = next_processing_epoch w"
  shows "\<exists>r t. wait_for_next_epoch w = (r, t) \<and>
           take 3 t = [PreWaitForNextEpoch, GetNextProcessingEpoch (next_processing_epoch w),
                       IncrementCompletedCount (completed_count w + 1)] \<and>
           (Wakeup \<in> set t \<longleftrightarrow> completed_count w + 1 = all_count w) \<and>
           (Epoch_after (next_processing_epoch w) (valid_until_epoch (gleaner_snapshot w))
              \<longrightarrow> r = Returned False \<and> CondWait (next_processing_epoch w) \<notin> set t) \<and>
           (\<not> Epoch_after (next_processing_epoch w) (valid_until_epoch (gleaner_snapshot w))
              \<longrightarrow> last t = CondWait (next_processing_epoch w) \<and>
                  (if list_ex (\<lambda>(processing, stop).
                                 processing = next_processing_epoch w \<or> stop) (wakeups w)
                   then r = Returned (\<not> stop_requested_at_return w)
                   else r = Blocked))"
  using assms
  by (auto simp: wait_for_next_epoch_def Let_def cond_wait_iff)

text \<open>C6: the last of four workers to complete, woken for epoch 5.\<close>

theorem wait_for_next_epoch_protocol_witness:
  "(3 :: u16) + 1 \<le> 4 \<and>
   wait_for_next_epoch
     \<lparr>next_processing_epoch = 5, completed_count = 3, all_count = 4, all_completed = True,
      processing_epoch = 4, gleaner_snapshot = \<lparr>base_epoch = 2, valid_until_epoch = 9\<rparr>,
      wakeups = [(4, False), (5, False)], stop_requested_at_return = False\<rparr>
   = (Returned True,
      [PreWaitForNextEpoch, GetNextProcessingEpoch 5, IncrementCompletedCount 4, Wakeup,
       CondWait 5]) \<and>
   \<not> Epoch_after 5 9"
proof -
  let ?w = "\<lparr>next_processing_epoch = 5, completed_count = 3, all_count = 4,
             all_completed = True, processing_epoch = 4,
             gleaner_snapshot = \<lparr>base_epoch = 2, valid_until_epoch = 9\<rparr>,
             wakeups = [(4, False), (5, False)], stop_requested_at_return = False\<rparr>"
  have h1: "completed_count ?w + 1 \<le> all_count ?w" by simp
  have h2: "completed_count ?w + 1 = all_count ?w
            \<longrightarrow> all_completed ?w \<or> processing_epoch ?w = next_processing_epoch ?w" by simp
  have na: "\<not> Epoch_after 5 9"
    by (simp add: Epoch_after_def Epoch_before_def word_less_nat_alt)
  from wait_for_next_epoch_protocol [OF h1 h2] obtain r t where
    rt: "wait_for_next_epoch ?w = (r, t)"
    and a: "take 3 t = [PreWaitForNextEpoch, GetNextProcessingEpoch 5, IncrementCompletedCount 4]"
    by auto
  have "wait_for_next_epoch ?w = (Returned True,
      [PreWaitForNextEpoch, GetNextProcessingEpoch 5, IncrementCompletedCount 4, Wakeup,
       CondWait 5])"
    using na by (simp add: wait_for_next_epoch_def Let_def)
  with h1 na show ?thesis by simp
qed

subsection \<open>The exit of a mapper or reducer\<close>

lemma wait_trace_events:
  assumes "e \<in> set (snd (wait_for_next_epoch w))"
  shows "e = PreWaitForNextEpoch \<or> e = GetNextProcessingEpoch (next_processing_epoch w) \<or>
         e = IncrementCompletedCount (completed_count w + 1) \<or> e = Wakeup \<or>
         e = CondWait (next_processing_epoch w)"
  using assms
  by (auto simp: wait_for_next_epoch_def Let_def split: if_splits)

lemma wait_trace_loop_events:
  "wait_for_next_epoch w = (r, t) \<Longrightarrow> \<forall>e\<in>set t. loop_event e \<and> e \<noteq> HandleEpoch True"
  using wait_trace_events[of _ w] by (fastforce simp: loop_event_def)

lemma handle_loop_trace:
  "handle_loop its = Some (r, t) \<Longrightarrow>
   (\<forall>e\<in>set t. loop_event e) \<and>
   (HandleEpoch True \<in> set t
      \<longrightarrow> r = Returned () \<and>
          (\<exists>pre. t = pre @ [HandleEpoch True, IncrementErrorCount, Wakeup]
                 \<and> HandleEpoch True \<notin> set pre))"
proof (induction its arbitrary: r t)
  case Nil
  then show ?case by simp
next
  case (Cons i later)
  show ?case
  proof (cases "stop_requested i")
    case True
    with Cons.prems show ?thesis by (auto simp: loop_event_def)
  next
    case ns: False
    show ?thesis
    proof (cases "epoch_error i")
      case True
      with ns Cons.prems have t: "t = [IsStopRequested False] @ [HandleEpoch True, IncrementErrorCount, Wakeup]"
        and r: "r = Returned ()" by auto
      have "\<forall>e\<in>set t. loop_event e" unfolding t by (simp add: loop_event_def)
      moreover have "\<exists>pre. t = pre @ [HandleEpoch True, IncrementErrorCount, Wakeup]
                          \<and> HandleEpoch True \<notin> set pre"
        using t by (intro exI[of _ "[IsStopRequested False]"]) simp
      ultimately show ?thesis using r by simp
    next
      case ne: False
      obtain wr wt where w: "wait_for_next_epoch (next_wait i) = (wr, wt)"
        by (cases "wait_for_next_epoch (next_wait i)")
      have wte: "\<forall>e\<in>set wt. loop_event e \<and> e \<noteq> HandleEpoch True"
        using wait_trace_loop_events[OF w] .
      let ?hd = "[IsStopRequested False, HandleEpoch False]"
      have hde: "\<forall>e\<in>set (?hd @ wt). loop_event e \<and> e \<noteq> HandleEpoch True"
        using wte by (simp add: loop_event_def)
      show ?thesis
      proof (cases "wr = Returned True")
        case True
        with ns ne w Cons.prems obtain t' where
          l: "handle_loop later = Some (r, t')" and t: "t = (?hd @ wt) @ t'"
          by (auto split: option.splits)
        from Cons.IH[OF l] have ih1: "\<forall>e\<in>set t'. loop_event e"
          and ih2: "HandleEpoch True \<in> set t'
             \<longrightarrow> r = Returned () \<and>
                 (\<exists>pre. t' = pre @ [HandleEpoch True, IncrementErrorCount, Wakeup]
                        \<and> HandleEpoch True \<notin> set pre)"
          by simp_all
        have a: "\<forall>e\<in>set t. loop_event e" using hde ih1 unfolding t by auto
        have b: "HandleEpoch True \<in> set t
             \<longrightarrow> r = Returned () \<and>
                 (\<exists>pre. t = pre @ [HandleEpoch True, IncrementErrorCount, Wakeup]
                        \<and> HandleEpoch True \<notin> set pre)"
        proof
          assume "HandleEpoch True \<in> set t"
          then have "HandleEpoch True \<in> set t'" using hde unfolding t by auto
          with ih2 obtain pre where r: "r = Returned ()"
            and p: "t' = pre @ [HandleEpoch True, IncrementErrorCount, Wakeup]"
            "HandleEpoch True \<notin> set pre" by blast
          have "t = ((?hd @ wt) @ pre) @ [HandleEpoch True, IncrementErrorCount, Wakeup]"
            unfolding t p by simp
          moreover have "HandleEpoch True \<notin> set ((?hd @ wt) @ pre)"
            using hde p(2) by auto
          ultimately show "r = Returned () \<and>
                 (\<exists>pre. t = pre @ [HandleEpoch True, IncrementErrorCount, Wakeup]
                        \<and> HandleEpoch True \<notin> set pre)"
            using r by blast
        qed
        from a b show ?thesis by simp
      next
        case False
        with ns ne w Cons.prems have t: "t = ?hd @ wt"
          by (cases wr) (auto split: bool.splits)
        then show ?thesis using hde by auto
      qed
    qed
  qed
qed

lemma handle_body_trace:
  assumes "handle_body h = Some (r, t)"
  shows "\<forall>e\<in>set t. loop_event e"
    and "init_error h \<Longrightarrow> r = Returned () \<and> t = [IncrementErrorCount, Wakeup]"
    and "HandleEpoch True \<in> set t
         \<Longrightarrow> r = Returned () \<and> (\<exists>pre. t = pre @ [HandleEpoch True, IncrementErrorCount, Wakeup])"
proof -
  show ie: "init_error h \<Longrightarrow> r = Returned () \<and> t = [IncrementErrorCount, Wakeup]"
    using assms by (auto simp: handle_body_def)
  obtain wr wt where w: "wait_for_next_epoch (first_wait h) = (wr, wt)"
    by (cases "wait_for_next_epoch (first_wait h)")
  have wte: "\<forall>e\<in>set wt. loop_event e \<and> e \<noteq> HandleEpoch True"
    using wait_trace_loop_events[OF w] .
  consider (init) "init_error h"
    | (loop) t' where "\<not> init_error h" "wr = Returned True"
        "handle_loop (iterations h) = Some (r, t')" "t = wt @ t'"
    | (nowait) "\<not> init_error h" "wr \<noteq> Returned True" "t = wt"
    using assms w
    by (cases wr) (auto simp: handle_body_def split: option.splits bool.splits if_splits)
  then have "(\<forall>e\<in>set t. loop_event e) \<and>
      (HandleEpoch True \<in> set t
         \<longrightarrow> r = Returned () \<and> (\<exists>pre. t = pre @ [HandleEpoch True, IncrementErrorCount, Wakeup]))"
  proof cases
    case init
    with ie show ?thesis by (simp add: loop_event_def)
  next
    case loop
    from handle_loop_trace[OF loop(3)] have l1: "\<forall>e\<in>set t'. loop_event e"
      and l2: "HandleEpoch True \<in> set t'
         \<longrightarrow> r = Returned () \<and>
             (\<exists>pre. t' = pre @ [HandleEpoch True, IncrementErrorCount, Wakeup]
                    \<and> HandleEpoch True \<notin> set pre)"
      by simp_all
    have a: "\<forall>e\<in>set t. loop_event e" using wte l1 loop(4) by auto
    have b: "HandleEpoch True \<in> set t
         \<longrightarrow> r = Returned () \<and> (\<exists>pre. t = pre @ [HandleEpoch True, IncrementErrorCount, Wakeup])"
    proof
      assume "HandleEpoch True \<in> set t"
      then have "HandleEpoch True \<in> set t'" using wte loop(4) by auto
      with l2 obtain pre where "r = Returned ()"
        "t' = pre @ [HandleEpoch True, IncrementErrorCount, Wakeup]" by blast
      then have "r = Returned ()" "t = (wt @ pre) @ [HandleEpoch True, IncrementErrorCount, Wakeup]"
        using loop(4) by simp_all
      then show "r = Returned () \<and> (\<exists>pre. t = pre @ [HandleEpoch True, IncrementErrorCount, Wakeup])"
        by blast
    qed
    from a b show ?thesis by simp
  next
    case nowait
    with wte show ?thesis by auto
  qed
  then show "\<forall>e\<in>set t. loop_event e"
    and "HandleEpoch True \<in> set t
         \<Longrightarrow> r = Returned () \<and> (\<exists>pre. t = pre @ [HandleEpoch True, IncrementErrorCount, Wakeup])"
    by simp_all
qed

lemma loop_events_count:
  assumes "\<forall>e\<in>set t. loop_event e"
  shows "filter is_uninitialize t = []" and "count_list t IncrementExitCount = 0"
    and "list_all (\<lambda>e. \<not> is_uninitialize e \<and> e \<noteq> IncrementExitCount) t"
  using assms
  by (auto simp: loop_event_def filter_empty_conv count_list_0_iff list_all_iff)

lemma handle_loop_leaves:
  assumes "\<forall>j\<in>set before. \<not> leaves_loop j"
    and "stop_requested i \<or> epoch_error i
         \<or> fst (wait_for_next_epoch (next_wait i)) = Returned False"
  shows "\<exists>t. handle_loop (before @ i # later) = Some (Returned (), t)"
  using assms(1)
proof (induction before)
  case Nil
  show ?case using assms(2)
    by (cases "wait_for_next_epoch (next_wait i)") auto
next
  case (Cons j before)
  then have j: "\<not> stop_requested j" "\<not> epoch_error j"
    "fst (wait_for_next_epoch (next_wait j)) = Returned True"
    by (simp_all add: leaves_loop_def)
  from Cons obtain t where "handle_loop (before @ i # later) = Some (Returned (), t)"
    by auto
  with j show ?case
    by (cases "wait_for_next_epoch (next_wait j)") auto
qed

lemma handle_returns:
  assumes "init_error h \<or> fst (wait_for_next_epoch (first_wait h)) = Returned False \<or>
           (fst (wait_for_next_epoch (first_wait h)) = Returned True \<and>
            (\<exists>before i later. iterations h = before @ i # later \<and>
               (\<forall>j\<in>set before. \<not> leaves_loop j) \<and>
               (stop_requested i \<or> epoch_error i
                \<or> fst (wait_for_next_epoch (next_wait i)) = Returned False)))"
  shows "\<exists>t. handle h = Some (Returned (), t)"
proof -
  have "\<exists>t. handle_body h = Some (Returned (), t)"
  proof (cases "init_error h")
    case True
    then show ?thesis by (simp add: handle_body_def)
  next
    case ni: False
    show ?thesis
    proof (cases "fst (wait_for_next_epoch (first_wait h)) = Returned False")
      case True
      with ni show ?thesis
        by (cases "wait_for_next_epoch (first_wait h)") (auto simp: handle_body_def)
    next
      case False
      with ni assms obtain before i later where
        w: "fst (wait_for_next_epoch (first_wait h)) = Returned True"
        and its: "iterations h = before @ i # later"
        and b: "\<forall>j\<in>set before. \<not> leaves_loop j"
        and l: "stop_requested i \<or> epoch_error i
                \<or> fst (wait_for_next_epoch (next_wait i)) = Returned False"
        by blast
      from handle_loop_leaves[OF b l, of later] its obtain t where
        "handle_loop (iterations h) = Some (Returned (), t)" by auto
      with ni w show ?thesis
        by (cases "wait_for_next_epoch (first_wait h)") (auto simp: handle_body_def)
    qed
  qed
  then show ?thesis by (auto simp: handle_def)
qed

text \<open>
  C7. Every run of \<^verbatim>\<open>handle()\<close> that returns (after an initialization error, an error
  of \<^verbatim>\<open>handle_epoch\<close>, a \<^verbatim>\<open>wait_for_next_epoch\<close> that returns false, or a stop
  request) ends with one call of \<^verbatim>\<open>handle_uninitialize\<close>, an increment of the parent's
  error count if that call fails, and one increment of the parent's exit count; neither
  call occurs earlier in the run. After an initialization error nothing but the increment
  of the error count and the wake-up of the parent precedes them; an error of
  \<^verbatim>\<open>handle_epoch\<close> is followed by the increment of the error count and the wake-up of
  the parent, with which the loop is left.
\<close>

theorem handle_exit_protocol:
  assumes "handle h = Some (Returned (), t)"
  shows "(\<exists>body. t = [NumaRunOnNode, HandleInitialize (init_error h)] @ body
                    @ [HandleUninitialize (uninit_error h)]
                    @ (if uninit_error h then [IncrementErrorCount] else [])
                    @ [IncrementExitCount] \<and>
                 list_all (\<lambda>e. \<not> is_uninitialize e \<and> e \<noteq> IncrementExitCount) body \<and>
                 (init_error h \<longrightarrow> body = [IncrementErrorCount, Wakeup]) \<and>
                 (HandleEpoch True \<in> set t
                    \<longrightarrow> (\<exists>pre. body = pre @ [HandleEpoch True, IncrementErrorCount, Wakeup]))) \<and>
         length (filter is_uninitialize t) = 1 \<and>
         count_list t IncrementExitCount = 1"
proof -
  from assms obtain body where b: "handle_body h = Some (Returned (), body)"
    and t: "t = [NumaRunOnNode, HandleInitialize (init_error h)] @ body
                @ [HandleUninitialize (uninit_error h)]
                @ (if uninit_error h then [IncrementErrorCount] else [])
                @ [IncrementExitCount]"
    by (auto simp: handle_def split: option.splits outcome.splits)
  note ev = handle_body_trace(1)[OF b]
  note c = loop_events_count[OF ev]
  have i: "init_error h \<longrightarrow> body = [IncrementErrorCount, Wakeup]"
    using handle_body_trace(2)[OF b] by simp
  have e: "HandleEpoch True \<in> set t
           \<longrightarrow> (\<exists>pre. body = pre @ [HandleEpoch True, IncrementErrorCount, Wakeup])"
  proof
    assume "HandleEpoch True \<in> set t"
    then have "HandleEpoch True \<in> set body" unfolding t by (auto split: if_splits)
    from handle_body_trace(3)[OF b this]
    show "\<exists>pre. body = pre @ [HandleEpoch True, IncrementErrorCount, Wakeup]" by simp
  qed
  have n1: "length (filter is_uninitialize t) = 1"
    unfolding t using c(1) by simp
  have n2: "count_list t IncrementExitCount = 1"
    unfolding t using c(2) by simp
  from t c(3) i e n1 n2 show ?thesis by blast
qed

text \<open>C7: a run whose first epoch fails.\<close>

theorem handle_exit_protocol_witness:
  "handle
     \<lparr>init_error = False,
      first_wait =
        \<lparr>next_processing_epoch = 5, completed_count = 3, all_count = 4, all_completed = True,
         processing_epoch = 4, gleaner_snapshot = \<lparr>base_epoch = 2, valid_until_epoch = 9\<rparr>,
         wakeups = [(5, False)], stop_requested_at_return = False\<rparr>,
      iterations =
        [\<lparr>stop_requested = False, epoch_error = True,
          next_wait =
            \<lparr>next_processing_epoch = 6, completed_count = 3, all_count = 4,
             all_completed = True, processing_epoch = 5,
             gleaner_snapshot = \<lparr>base_epoch = 2, valid_until_epoch = 9\<rparr>,
             wakeups = [], stop_requested_at_return = False\<rparr>\<rparr>],
      uninit_error = False\<rparr>
   = Some (Returned (),
       [NumaRunOnNode, HandleInitialize False, PreWaitForNextEpoch, GetNextProcessingEpoch 5,
        IncrementCompletedCount 4, Wakeup, CondWait 5, IsStopRequested False,
        HandleEpoch True, IncrementErrorCount, Wakeup, HandleUninitialize False,
        IncrementExitCount]) \<and>
   length (filter is_uninitialize
       [NumaRunOnNode, HandleInitialize False, PreWaitForNextEpoch, GetNextProcessingEpoch 5,
        IncrementCompletedCount 4, Wakeup, CondWait 5, IsStopRequested False,
        HandleEpoch True, IncrementErrorCount, Wakeup, HandleUninitialize False,
        IncrementExitCount]) = 1"
proof -
  let ?h = "\<lparr>init_error = False,
      first_wait =
        \<lparr>next_processing_epoch = 5, completed_count = 3, all_count = 4, all_completed = True,
         processing_epoch = 4, gleaner_snapshot = \<lparr>base_epoch = 2, valid_until_epoch = 9\<rparr>,
         wakeups = [(5, False)], stop_requested_at_return = False\<rparr>,
      iterations =
        [\<lparr>stop_requested = False, epoch_error = True,
          next_wait =
            \<lparr>next_processing_epoch = 6, completed_count = 3, all_count = 4,
             all_completed = True, processing_epoch = 5,
             gleaner_snapshot = \<lparr>base_epoch = 2, valid_until_epoch = 9\<rparr>,
             wakeups = [], stop_requested_at_return = False\<rparr>\<rparr>],
      uninit_error = False\<rparr>"
  let ?t = "[NumaRunOnNode, HandleInitialize False, PreWaitForNextEpoch, GetNextProcessingEpoch 5,
        IncrementCompletedCount 4, Wakeup, CondWait 5, IsStopRequested False,
        HandleEpoch True, IncrementErrorCount, Wakeup, HandleUninitialize False,
        IncrementExitCount]"
  have na: "\<not> Epoch_after 5 9"
    by (simp add: Epoch_after_def Epoch_before_def word_less_nat_alt)
  have h: "handle ?h = Some (Returned (), ?t)"
    using na by (simp add: handle_def handle_body_def wait_for_next_epoch_def Let_def)
  from handle_exit_protocol [OF h] have "length (filter is_uninitialize ?t) = 1"
    by blast
  with h show ?thesis by blast
qed

subsection \<open>The folder path pattern and the loaded keys\<close>

lemma decimal_digit_in: "d < 10 \<Longrightarrow> decimal_digit d \<in> set ''0123456789''"
  unfolding decimal_digit_def by (rule nth_mem) simp

lemma decimal_nat_chars: "set (decimal_nat n) \<subseteq> set ''0123456789''"
proof (induction n rule: decimal_nat.induct)
  case (1 n)
  show ?case
  proof (cases "n < 10")
    case True
    then show ?thesis using decimal_digit_in[of n] by (subst decimal_nat.simps) simp
  next
    case False
    have "n mod 10 < 10" by simp
    from decimal_digit_in[OF this] 1[OF False] False show ?thesis
      by (subst decimal_nat.simps) simp
  qed
qed

lemma decimal_nat_not_Nil: "decimal_nat n \<noteq> []"
  by (subst decimal_nat.simps) simp

lemma decimal_not_Nil: "decimal i \<noteq> []"
  by (simp add: decimal_def decimal_nat_not_Nil)

lemma decimal_chars: "set (decimal i) \<subseteq> insert CHR ''-'' (set ''0123456789'')"
proof (cases "i < 0")
  case True
  then have "decimal i = CHR ''-'' # decimal_nat (nat (- i))" by (simp add: decimal_def)
  then show ?thesis using decimal_nat_chars[of "nat (- i)"] by (simp add: subset_insertI2)
next
  case False
  then have "decimal i = decimal_nat (nat i)" by (simp add: decimal_def)
  then show ?thesis using decimal_nat_chars[of "nat i"] by (simp add: subset_insertI2)
qed

lemma placeholder_chars: "set ''$NODE$'' \<inter> insert CHR ''-'' (set ''0123456789'') = {}"
  by code_simp

lemma decimal_no_placeholder_char: "set ''$NODE$'' \<inter> set (decimal i) = {}"
  using decimal_chars[of i] placeholder_chars by blast

lemma prefix_replace_all_str:
  "set p \<inter> set r = {} \<Longrightarrow> r \<noteq> [] \<Longrightarrow> prefix p (replace_all_str t s r) \<Longrightarrow> prefix p t"
proof (induction t s r arbitrary: p rule: replace_all_str.induct)
  case (1 s r)
  then show ?case by simp
next
  case (2 c cs s r)
  show ?case
  proof (cases p)
    case Nil
    then show ?thesis by simp
  next
    case (Cons x p')
    show ?thesis
    proof (cases "s \<noteq> [] \<and> prefix s (c # cs)")
      case True
      then have "replace_all_str (c # cs) s r = r @ replace_all_str (drop (length s) (c # cs)) s r"
        by simp
      with "2.prems"(3) Cons have "prefix (x # p') (r @ replace_all_str (drop (length s) (c # cs)) s r)"
        by simp
      moreover obtain y r' where "r = y # r'" using "2.prems"(2) by (cases r) auto
      ultimately have "x \<in> set r" by simp
      with "2.prems"(1) Cons show ?thesis by auto
    next
      case False
      then have "replace_all_str (c # cs) s r = c # replace_all_str cs s r"
        by auto
      with "2.prems"(3) Cons have x: "x = c" and p': "prefix p' (replace_all_str cs s r)"
        by simp_all
      have "set p' \<inter> set r = {}" using "2.prems"(1) Cons by auto
      from "2.IH"(2)[OF False this "2.prems"(2) p'] x Cons show ?thesis by simp
    qed
  qed
qed

lemma sublist_after_replacement:
  assumes "set s \<inter> set r = {}" and "sublist s (r @ xs)"
  shows "sublist s xs"
  using assms
proof (induction r)
  case Nil
  then show ?case by simp
next
  case (Cons y r)
  from Cons.prems(2) have "prefix s (y # r @ xs) \<or> sublist s (r @ xs)"
    by (simp add: sublist_Cons_right)
  then show ?case
  proof
    assume p: "prefix s (y # r @ xs)"
    show ?thesis
    proof (cases s)
      case Nil
      then show ?thesis by simp
    next
      case (Cons z s')
      with p have "z = y" by simp
      with Cons Cons.prems(1) show ?thesis by auto
    qed
  next
    assume "sublist s (r @ xs)"
    moreover have "set s \<inter> set r = {}" using Cons.prems(1) by auto
    ultimately show ?thesis using Cons.IH by simp
  qed
qed

lemma replace_all_str_no_occurrence:
  "s \<noteq> [] \<Longrightarrow> set s \<inter> set r = {} \<Longrightarrow> r \<noteq> [] \<Longrightarrow> \<not> sublist s (replace_all_str t s r)"
proof (induction t s r rule: replace_all_str.induct)
  case (1 s r)
  then show ?case by (cases s) simp_all
next
  case (2 c cs s r)
  show ?case
  proof (cases "s \<noteq> [] \<and> prefix s (c # cs)")
    case True
    then have eq: "replace_all_str (c # cs) s r
                   = r @ replace_all_str (drop (length s) (c # cs)) s r"
      by simp
    have "\<not> sublist s (replace_all_str (drop (length s) (c # cs)) s r)"
      using "2.IH"(1)[OF True "2.prems"] .
    then show ?thesis
      unfolding eq using sublist_after_replacement[OF "2.prems"(2)] by blast
  next
    case False
    then have eq: "replace_all_str (c # cs) s r = c # replace_all_str cs s r"
      by auto
    have ih: "\<not> sublist s (replace_all_str cs s r)"
      using "2.IH"(2)[OF False "2.prems"] .
    have "\<not> prefix s (c # replace_all_str cs s r)"
    proof
      assume "prefix s (c # replace_all_str cs s r)"
      then have "prefix s (replace_all_str (c # cs) s r)" using eq by simp
      from prefix_replace_all_str[OF "2.prems"(2,3) this] False "2.prems"(1)
      show False by simp
    qed
    with ih show ?thesis unfolding eq by (simp add: sublist_Cons_right)
  qed
qed

lemma replace_all_str_pieces:
  "s \<noteq> [] \<Longrightarrow> \<exists>pieces. t = join s pieces \<and> replace_all_str t s r = join r pieces"
proof (induction t s r rule: replace_all_str.induct)
  case (1 s r)
  show ?case by (rule exI[of _ "[]"]) simp
next
  case (2 c cs s r)
  show ?case
  proof (cases "s \<noteq> [] \<and> prefix s (c # cs)")
    case True
    then have eq: "replace_all_str (c # cs) s r
                   = r @ replace_all_str (drop (length s) (c # cs)) s r"
      by simp
    from True have t: "c # cs = s @ drop (length s) (c # cs)"
      by (metis append_take_drop_id prefix_def append_eq_conv_conj)
    from "2.IH"(1)[OF True "2.prems"] obtain pieces where
      p: "drop (length s) (c # cs) = join s pieces"
      "replace_all_str (drop (length s) (c # cs)) s r = join r pieces" by blast
    show ?thesis
    proof (cases pieces)
      case Nil
      with p t eq have "c # cs = join s [[], []]" "replace_all_str (c # cs) s r = join r [[], []]"
        by simp_all
      then show ?thesis by blast
    next
      case (Cons q qs)
      with p t eq have "c # cs = join s ([] # q # qs)"
        "replace_all_str (c # cs) s r = join r ([] # q # qs)"
        by simp_all
      then show ?thesis by blast
    qed
  next
    case False
    then have eq: "replace_all_str (c # cs) s r = c # replace_all_str cs s r"
      by auto
    from "2.IH"(2)[OF False "2.prems"] obtain pieces where
      p: "cs = join s pieces" "replace_all_str cs s r = join r pieces" by blast
    show ?thesis
    proof (cases pieces)
      case Nil
      with p eq have "c # cs = join s [[c]]" "replace_all_str (c # cs) s r = join r [[c]]"
        by simp_all
      then show ?thesis by blast
    next
      case (Cons q qs)
      with p eq have "c # cs = join s ((c # q) # qs) \<and>
        replace_all_str (c # cs) s r = join r ((c # q) # qs)"
        by (cases qs) simp_all
      then show ?thesis by blast
    qed
  qed
qed

lemma load_success:
  assumes "load get_string get_int get_child element this = (None, this')"
  shows "get_string element ''folder_path_pattern_'' = Inr (folder_path_pattern this') \<and>
         get_int element ''snapshot_trigger_page_pool_percent_''
           = Inr (snapshot_trigger_page_pool_percent this') \<and>
         get_int element ''snapshot_interval_milliseconds_''
           = Inr (snapshot_interval_milliseconds this') \<and>
         get_int element ''log_mapper_bucket_kb_'' = Inr (log_mapper_bucket_kb this') \<and>
         get_int element ''log_mapper_io_buffer_kb_'' = Inr (log_mapper_io_buffer_kb this') \<and>
         get_int element ''log_reducer_buffer_mb_'' = Inr (log_reducer_buffer_mb this') \<and>
         get_child element ''SnapshotDeviceEmulationOptions'' = Inr (emulation this')"
  using assms
  unfolding load_def EXTERNALIZE_LOAD_ELEMENT_def
  by (auto split: sum.splits)

lemma load_reads_only:
  assumes "get_string element ''folder_path_pattern_'' = get_string' element ''folder_path_pattern_''"
    and "list_all (\<lambda>k. get_int element k = get_int' element k) integer_keys"
    and "get_child element ''SnapshotDeviceEmulationOptions''
         = get_child' element ''SnapshotDeviceEmulationOptions''"
  shows "load get_string get_int get_child element this
         = load get_string' get_int' get_child' element this"
proof -
  from assms(2) have i:
    "get_int element ''snapshot_trigger_page_pool_percent_''
       = get_int' element ''snapshot_trigger_page_pool_percent_''"
    "get_int element ''snapshot_interval_milliseconds_''
       = get_int' element ''snapshot_interval_milliseconds_''"
    "get_int element ''log_mapper_bucket_kb_'' = get_int' element ''log_mapper_bucket_kb_''"
    "get_int element ''log_mapper_io_buffer_kb_'' = get_int' element ''log_mapper_io_buffer_kb_''"
    "get_int element ''log_reducer_buffer_mb_'' = get_int' element ''log_reducer_buffer_mb_''"
    by (simp_all add: integer_keys_def)
  show ?thesis
    unfolding load_def EXTERNALIZE_LOAD_ELEMENT_def assms(1) assms(3) i ..
qed

text \<open>
  C8. \<^verbatim>\<open>convert_folder_path_pattern(node)\<close> returns \<^verbatim>\<open>folder_path_pattern_\<close> with the
  decimal node id in the place of occurrences of \<^verbatim>\<open>$NODE$\<close> and the text between them
  unchanged, and no occurrence of \<^verbatim>\<open>$NODE$\<close> is left in the result. A successful
  \<^verbatim>\<open>load\<close> has read the element \<^verbatim>\<open>folder_path_pattern_\<close>, the five integer elements
  and the nested block \<^verbatim>\<open>SnapshotDeviceEmulationOptions\<close> into their fields, and the
  result of \<^verbatim>\<open>load\<close> depends on nothing but these seven.
\<close>

theorem snapshot_options_placeholder_and_keys:
  "(\<exists>pieces. folder_path_pattern this = join ''$NODE$'' pieces \<and>
              convert_folder_path_pattern this node = join (decimal node) pieces) \<and>
   \<not> sublist ''$NODE$'' (convert_folder_path_pattern this node) \<and>
   (load get_string get_int get_child element this = (None, this')
      \<longrightarrow> get_string element ''folder_path_pattern_'' = Inr (folder_path_pattern this') \<and>
          get_int element ''snapshot_trigger_page_pool_percent_''
            = Inr (snapshot_trigger_page_pool_percent this') \<and>
          get_int element ''snapshot_interval_milliseconds_''
            = Inr (snapshot_interval_milliseconds this') \<and>
          get_int element ''log_mapper_bucket_kb_'' = Inr (log_mapper_bucket_kb this') \<and>
          get_int element ''log_mapper_io_buffer_kb_'' = Inr (log_mapper_io_buffer_kb this') \<and>
          get_int element ''log_reducer_buffer_mb_'' = Inr (log_reducer_buffer_mb this') \<and>
          get_child element ''SnapshotDeviceEmulationOptions'' = Inr (emulation this')) \<and>
   (get_string element ''folder_path_pattern_'' = get_string' element ''folder_path_pattern_'' \<and>
    list_all (\<lambda>k. get_int element k = get_int' element k) integer_keys \<and>
    get_child element ''SnapshotDeviceEmulationOptions''
      = get_child' element ''SnapshotDeviceEmulationOptions''
      \<longrightarrow> load get_string get_int get_child element this
          = load get_string' get_int' get_child' element this)"
proof -
  have ne: "''$NODE$'' \<noteq> []" by simp
  have a: "\<exists>pieces. folder_path_pattern this = join ''$NODE$'' pieces \<and>
              convert_folder_path_pattern this node = join (decimal node) pieces"
    unfolding convert_folder_path_pattern_def replace_all_def
    by (rule replace_all_str_pieces[OF ne])
  have b: "\<not> sublist ''$NODE$'' (convert_folder_path_pattern this node)"
    unfolding convert_folder_path_pattern_def replace_all_def
    by (rule replace_all_str_no_occurrence[OF ne decimal_no_placeholder_char decimal_not_Nil])
  from a b load_success[of get_string get_int get_child element this this']
    load_reads_only[of get_string element get_string' get_int get_int' get_child get_child' this]
  show ?thesis by blast
qed

text \<open>C8: an element with the pattern \<^verbatim>\<open>/data/node_$NODE$\<close>, and node 12.\<close>

theorem snapshot_options_placeholder_and_keys_witness:
  "load (\<lambda>(element :: unit) tag. Inr ''/data/node_$NODE$'' :: unit + string)
        (\<lambda>element tag. if tag \<in> set integer_keys then Inr 50 else Inl ())
        (\<lambda>element tag. Inr ()) ()
        \<lparr>folder_path_pattern = ''snapshots/node_$NODE$'',
         snapshot_trigger_page_pool_percent = 1, snapshot_interval_milliseconds = 2,
         log_mapper_bucket_kb = 3, log_mapper_io_buffer_kb = 4, log_reducer_buffer_mb = 5,
         emulation = ()\<rparr>
   = (None,
      \<lparr>folder_path_pattern = ''/data/node_$NODE$'',
       snapshot_trigger_page_pool_percent = 50, snapshot_interval_milliseconds = 50,
       log_mapper_bucket_kb = 50, log_mapper_io_buffer_kb = 50, log_reducer_buffer_mb = 50,
       emulation = ()\<rparr>) \<and>
   convert_folder_path_pattern
     \<lparr>folder_path_pattern = ''/data/node_$NODE$'',
      snapshot_trigger_page_pool_percent = 50, snapshot_interval_milliseconds = 50,
      log_mapper_bucket_kb = 50, log_mapper_io_buffer_kb = 50, log_reducer_buffer_mb = 50,
      emulation = ()\<rparr> 12
   = ''/data/node_12'' \<and>
   \<not> sublist ''$NODE$'' ''/data/node_12''"
proof -
  let ?gs = "\<lambda>(element :: unit) tag. Inr ''/data/node_$NODE$'' :: unit + string"
  let ?gi = "\<lambda>(element :: unit) tag. if tag \<in> set integer_keys then Inr (50 :: int) else Inl ()"
  let ?gc = "\<lambda>(element :: unit) (tag :: string). Inr () :: unit + unit"
  let ?old = "\<lparr>folder_path_pattern = ''snapshots/node_$NODE$'',
         snapshot_trigger_page_pool_percent = 1, snapshot_interval_milliseconds = 2,
         log_mapper_bucket_kb = 3, log_mapper_io_buffer_kb = 4, log_reducer_buffer_mb = 5,
         emulation = ()\<rparr>"
  let ?new = "\<lparr>folder_path_pattern = ''/data/node_$NODE$'',
       snapshot_trigger_page_pool_percent = 50, snapshot_interval_milliseconds = 50,
       log_mapper_bucket_kb = 50, log_mapper_io_buffer_kb = 50, log_reducer_buffer_mb = 50,
       emulation = ()\<rparr>"
  have l: "load ?gs ?gi ?gc () ?old = (None, ?new)"
    by (simp add: load_def EXTERNALIZE_LOAD_ELEMENT_def integer_keys_def)
  have c: "convert_folder_path_pattern ?new 12 = ''/data/node_12''"
    by code_simp
  note snapshot_options_placeholder_and_keys
    [where this = ?new and node = 12, THEN conjunct2, THEN conjunct1]
  with l c show ?thesis by simp
qed

subsection \<open>The sums of the TPC-B balances\<close>

lemma sum_list_map_update:
  fixes f :: "'a \<Rightarrow> int"
  shows "i < length xs \<Longrightarrow>
         sum_list (map f (xs[i := v])) = sum_list (map f xs) - f (xs ! i) + f v"
proof (induction xs arbitrary: i)
  case Nil
  then show ?case by simp
next
  case (Cons x xs)
  then show ?case by (cases i) simp_all
qed

lemma xct_ids_in_range:
  assumes "xct_in_range t"
  shows "drawn_account_id t div ACCOUNTS < BRANCHES"
    and "drawn_account_id t div ACCOUNTS_PER_TELLER < BRANCHES * TELLERS"
    and "drawn_account_id t < BRANCHES * ACCOUNTS"
    and "xct_history_id t < HISTORIES"
proof -
  have a: "drawn_account_id t < 32" and c: "client_id t < 4" and i: "xct_index t < 100"
    using assms
    by (simp_all add: xct_in_range_def BRANCHES_def ACCOUNTS_def MAX_TEST_THREADS_def
        XCTS_PER_THREAD_def)
  show "drawn_account_id t div ACCOUNTS < BRANCHES"
    using a by (simp add: ACCOUNTS_def BRANCHES_def)
  show "drawn_account_id t div ACCOUNTS_PER_TELLER < BRANCHES * TELLERS"
    using a by (simp add: ACCOUNTS_PER_TELLER_def ACCOUNTS_def TELLERS_def BRANCHES_def)
  show "drawn_account_id t < BRANCHES * ACCOUNTS"
    using a by (simp add: ACCOUNTS_def BRANCHES_def)
  show "xct_history_id t < HISTORIES"
    using c i
    by (simp add: xct_history_id_def HISTORIES_def XCTS_PER_THREAD_def MAX_TEST_THREADS_def)
qed

lemma run_xct_step:
  assumes s: "table_sizes db" and r: "xct_in_range t"
  shows "\<exists>db'. run_xct db t = Some db' \<and> table_sizes db' \<and>
           sum_branch_balances db' = sum_branch_balances db + drawn_amount t \<and>
           sum_teller_balances db' = sum_teller_balances db + drawn_amount t \<and>
           sum_account_balances db' = sum_account_balances db + drawn_amount t \<and>
           sum_history_amounts db' = sum_history_amounts db
             - history_amount (histories db ! xct_history_id t) + drawn_amount t \<and>
           (\<forall>h. h \<noteq> xct_history_id t \<longrightarrow> histories db' ! h = histories db ! h)"
proof -
  let ?b = "drawn_account_id t div ACCOUNTS"
  let ?t = "drawn_account_id t div ACCOUNTS_PER_TELLER"
  let ?a = "drawn_account_id t"
  let ?h = "xct_history_id t"
  have b: "?b < length (branches db)" and t: "?t < length (tellers db)"
    and a: "?a < length (accounts db)" and h: "?h < length (histories db)"
    using xct_ids_in_range[OF r] s by (simp_all add: table_sizes_def)
  let ?db' = "\<lparr>branches = (branches db)[?b := (branches db ! ?b)
                   \<lparr>branch_balance := branch_balance (branches db ! ?b) + drawn_amount t\<rparr>],
               tellers = (tellers db)[?t := (tellers db ! ?t)
                   \<lparr>teller_balance := teller_balance (tellers db ! ?t) + drawn_amount t\<rparr>],
               accounts = (accounts db)[?a := (accounts db ! ?a)
                   \<lparr>account_balance := account_balance (accounts db ! ?a) + drawn_amount t\<rparr>],
               histories = (histories db)[?h := (histories db ! ?h)
                   \<lparr>history_account_id := ?a, history_branch_id := ?b,
                    history_teller_id := ?t, history_amount := drawn_amount t\<rparr>]\<rparr>"
  have run: "run_xct db t = Some ?db'"
    using b t a h
    by (simp add: run_xct_def try_transaction_def get_record_def overwrite_record_def Let_def)
  have sz: "table_sizes ?db'" using s by (simp add: table_sizes_def)
  have sb: "sum_branch_balances ?db' = sum_branch_balances db + drawn_amount t"
    using b by (simp add: sum_branch_balances_def sum_list_map_update)
  have st: "sum_teller_balances ?db' = sum_teller_balances db + drawn_amount t"
    using t by (simp add: sum_teller_balances_def sum_list_map_update)
  have sa: "sum_account_balances ?db' = sum_account_balances db + drawn_amount t"
    using a by (simp add: sum_account_balances_def sum_list_map_update)
  have sh: "sum_history_amounts ?db' = sum_history_amounts db
             - history_amount (histories db ! ?h) + drawn_amount t"
    using h by (simp add: sum_history_amounts_def sum_list_map_update)
  have oth: "\<forall>h. h \<noteq> ?h \<longrightarrow> histories ?db' ! h = histories db ! h"
    by simp
  from run sz sb st sa sh oth show ?thesis by blast
qed

lemma run_schedule_sums:
  "table_sizes db \<Longrightarrow> list_all xct_in_range schedule \<Longrightarrow>
   distinct (map xct_history_id schedule) \<Longrightarrow>
   \<forall>t\<in>set schedule. history_amount (histories db ! xct_history_id t) = 0 \<Longrightarrow>
   \<exists>db'. run_schedule db schedule = Some db' \<and> table_sizes db' \<and>
     sum_branch_balances db' = sum_branch_balances db + sum_amounts schedule \<and>
     sum_teller_balances db' = sum_teller_balances db + sum_amounts schedule \<and>
     sum_account_balances db' = sum_account_balances db + sum_amounts schedule \<and>
     sum_history_amounts db' = sum_history_amounts db + sum_amounts schedule"
proof (induction schedule arbitrary: db)
  case Nil
  then show ?case by (simp add: sum_amounts_def)
next
  case (Cons t ts)
  from Cons.prems have r: "xct_in_range t" and rs: "list_all xct_in_range ts"
    and nt: "xct_history_id t \<notin> xct_history_id ` set ts"
    and d: "distinct (map xct_history_id ts)"
    and z: "history_amount (histories db ! xct_history_id t) = 0"
    and zs: "\<forall>u\<in>set ts. history_amount (histories db ! xct_history_id u) = 0"
    by simp_all
  from run_xct_step[OF Cons.prems(1) r] obtain db1 where
    run: "run_xct db t = Some db1" and sz: "table_sizes db1"
    and sb: "sum_branch_balances db1 = sum_branch_balances db + drawn_amount t"
    and st: "sum_teller_balances db1 = sum_teller_balances db + drawn_amount t"
    and sa: "sum_account_balances db1 = sum_account_balances db + drawn_amount t"
    and sh: "sum_history_amounts db1 = sum_history_amounts db
             - history_amount (histories db ! xct_history_id t) + drawn_amount t"
    and oth: "\<forall>h. h \<noteq> xct_history_id t \<longrightarrow> histories db1 ! h = histories db ! h"
    by blast
  have zs1: "\<forall>u\<in>set ts. history_amount (histories db1 ! xct_history_id u) = 0"
    using zs oth nt by (metis imageI)
  from Cons.IH[OF sz rs d zs1] obtain db' where
    "run_schedule db1 ts = Some db'" "table_sizes db'"
    "sum_branch_balances db' = sum_branch_balances db1 + sum_amounts ts"
    "sum_teller_balances db' = sum_teller_balances db1 + sum_amounts ts"
    "sum_account_balances db' = sum_account_balances db1 + sum_amounts ts"
    "sum_history_amounts db' = sum_history_amounts db1 + sum_amounts ts"
    by blast
  then show ?case
    using run sb st sa sh z by (simp add: sum_amounts_def)
qed

lemma create_tpcb_tables_sums:
  "table_sizes create_tpcb_tables"
  "sum_branch_balances create_tpcb_tables = 8 * 400"
  "sum_teller_balances create_tpcb_tables = 8 * 400"
  "sum_account_balances create_tpcb_tables = 8 * 400"
  "sum_history_amounts create_tpcb_tables = 0"
  by (simp_all add: create_tpcb_tables_def table_sizes_def sum_branch_balances_def
      sum_teller_balances_def sum_account_balances_def sum_history_amounts_def comp_def
      sum_list_triv BRANCHES_def TELLERS_def ACCOUNTS_def ACCOUNTS_PER_TELLER_def
      HISTORIES_def INITIAL_ACCOUNT_BALANCE_def XCTS_PER_THREAD_def MAX_TEST_THREADS_def)

lemma create_tpcb_tables_history:
  assumes "h < HISTORIES"
  shows "history_amount (histories create_tpcb_tables ! h) = 0"
  using assms by (simp add: create_tpcb_tables_def)

lemma scenario_S2_sums:
  assumes "scenario_S2 schedule"
  shows "\<exists>db. run_schedule create_tpcb_tables schedule = Some db \<and>
           sum_branch_balances db = 8 * 400 + sum_amounts schedule \<and>
           sum_teller_balances db = 8 * 400 + sum_amounts schedule \<and>
           sum_account_balances db = 8 * 400 + sum_amounts schedule \<and>
           sum_history_amounts db = sum_amounts schedule"
proof -
  have r: "list_all xct_in_range schedule" and d: "distinct (map xct_history_id schedule)"
    using assms by (simp_all add: scenario_S2_def)
  have z: "\<forall>t\<in>set schedule.
             history_amount (histories create_tpcb_tables ! xct_history_id t) = 0"
    using r xct_ids_in_range(4) create_tpcb_tables_history
    by (auto simp: list_all_iff)
  from run_schedule_sums[OF create_tpcb_tables_sums(1) r d z] show ?thesis
    by (auto simp: create_tpcb_tables_sums)
qed

lemma uniform_schedule_S2: "scenario_S2 uniform_schedule"
proof -
  have id: "map xct_history_id uniform_schedule = [0..<400]"
    unfolding uniform_schedule_def
    by (rule nth_equalityI) (simp_all add: xct_history_id_def XCTS_PER_THREAD_def)
  have "list_all xct_in_range uniform_schedule"
    by (simp add: uniform_schedule_def list_all_iff xct_in_range_def MAX_TEST_THREADS_def
        XCTS_PER_THREAD_def BRANCHES_def ACCOUNTS_def AMOUNT_RANGE_FROM_def
        AMOUNT_RANGE_TO_def div_less_iff_less_mult)
  moreover have "distinct (map xct_history_id uniform_schedule)"
    unfolding id by simp
  moreover have "length uniform_schedule = MAX_TEST_THREADS * XCTS_PER_THREAD"
    by (simp add: uniform_schedule_def MAX_TEST_THREADS_def XCTS_PER_THREAD_def)
  ultimately show ?thesis by (simp add: scenario_S2_def)
qed

lemma uniform_schedule_amounts: "sum_amounts uniform_schedule = 400"
  by (simp add: sum_amounts_def uniform_schedule_def comp_def sum_list_triv)

text \<open>
  C3, as stated, fails: the sum of the history amounts is the sum of the amounts, not the
  sum of the branch balances. In the schedule of scenario S2 in which every one of the
  400 transactions adds 1, the branch balances sum to \<open>8 * 400 + 400\<close> and the history
  amounts to 400.
\<close>

theorem tpcb_history_sum_differs:
  "scenario_S2 uniform_schedule \<and>
   map_option sum_branch_balances (run_schedule create_tpcb_tables uniform_schedule)
     = Some 3600 \<and>
   map_option sum_history_amounts (run_schedule create_tpcb_tables uniform_schedule)
     = Some 400"
  using scenario_S2_sums[OF uniform_schedule_S2] uniform_schedule_S2
  by (auto simp: uniform_schedule_amounts)

text \<open>
  C3, amended. After scenario S2 (4 clients each committing 100 TPC-B transactions, in
  any commit order, every transaction adding its amount to one branch, one teller and
  one account and recording one history entry), all transactions have committed, the sum
  of all branch balances is \<open>8 * 400\<close> plus the sum of all amounts, the sums of all
  teller balances and of all account balances are the same, and the sum of all history
  amounts is the sum of all amounts.
\<close>

theorem tpcb_S2_sums:
  assumes "scenario_S2 schedule"
  shows "\<exists>db. run_schedule create_tpcb_tables schedule = Some db \<and>
           sum_branch_balances db = 8 * 400 + sum_amounts schedule \<and>
           sum_teller_balances db = sum_branch_balances db \<and>
           sum_account_balances db = sum_branch_balances db \<and>
           sum_history_amounts db = sum_amounts schedule"
  using scenario_S2_sums[OF assms] by auto

text \<open>C3, amended: the schedule in which every transaction adds 1.\<close>

theorem tpcb_S2_sums_witness:
  "scenario_S2 uniform_schedule \<and>
   map_option sum_teller_balances (run_schedule create_tpcb_tables uniform_schedule)
     = Some (8 * 400 + 400) \<and>
   map_option sum_account_balances (run_schedule create_tpcb_tables uniform_schedule)
     = Some (8 * 400 + 400) \<and>
   map_option sum_history_amounts (run_schedule create_tpcb_tables uniform_schedule)
     = Some 400"
  using tpcb_S2_sums [OF uniform_schedule_S2] uniform_schedule_S2
  by (auto simp: uniform_schedule_amounts)

subsection \<open>Local work memory\<close>

text \<open>
  Where neither rounding overflows, the call does what is expected of it: it compares the
  rounded size plus the rounded cursor with the size of the work memory, and either
  refuses and changes nothing, or hands out the address at the rounded cursor, which is
  a multiple of the alignment, and moves the cursor behind the rounded size.
\<close>

lemma round_up_dvd: "round_up n a mod a = 0"
  by (simp add: round_up_def)

lemma unat_round_up:
  fixes n a :: "'a::len word"
  assumes "a \<noteq> 0" and "round_up (unat n) (unat a) < 2 ^ LENGTH('a)"
  shows "unat (if n mod a \<noteq> 0 then ((n div a) + 1) * a else n) = round_up (unat n) (unat a)"
proof (cases "n mod a = 0")
  case True
  then have "unat (n mod a) = 0" by simp
  then have "unat n mod unat a = 0" by (simp add: unat_mod)
  with True show ?thesis by (simp add: round_up_def)
next
  case False
  then have "unat (n mod a) \<noteq> 0" by (simp add: unat_eq_zero)
  then have m: "unat n mod unat a \<noteq> 0" by (simp add: unat_mod)
  then have r: "round_up (unat n) (unat a) = (unat n div unat a + 1) * unat a"
    by (simp add: round_up_def)
  have a0: "0 < unat a" using assms(1) by (simp add: unat_gt_0)
  have b: "(unat n div unat a + 1) * unat a < 2 ^ LENGTH('a)" using assms(2) r by simp
  have "(unat n div unat a + 1) * 1 \<le> (unat n div unat a + 1) * unat a"
    by (rule mult_le_mono2) (use a0 in simp)
  with b have "unat n div unat a + 1 < 2 ^ LENGTH('a)" by simp
  then have p: "unat (n div a + 1) = unat n div unat a + 1"
    by (simp add: unat_word_ariths unat_div)
  have "unat (n div a + 1) * unat a < 2 ^ LENGTH('a)" using b p by simp
  then have "unat ((n div a + 1) * a) = unat (n div a + 1) * unat a"
    by (simp add: unat_mult_lem[THEN iffD1])
  with p r False show ?thesis by simp
qed

lemma unat_ucast_u32_u64: "unat (ucast (w :: u32) :: u64) = unat w"
proof -
  have "unat w < 2 ^ 32" using unsigned_less[of w, where ?'a = nat] by simp
  then have "unat w < 2 ^ 64" by simp
  then show ?thesis by (simp add: unsigned_ucast_eq take_bit_nat_eq_self)
qed

lemma acquire_local_work_memory_in_range:
  assumes a: "alignment \<noteq> 0"
    and s: "round_up (unat size0) (unat alignment) < 2 ^ 32"
    and c: "round_up (unat size0) (unat alignment)
            + round_up (unat (local_work_memory_cur x)) (unat alignment) < 2 ^ 64"
  shows "acquire_local_work_memory size0 alignment x =
           (if round_up (unat size0) (unat alignment)
               + round_up (unat (local_work_memory_cur x)) (unat alignment)
               > unat (local_work_memory_size x)
            then Inr (kErrorCodeXctNoMoreLocalWorkMemory, None, x)
            else Inr (kErrorCodeOk,
                      Some (local_work_memory x
                            + of_nat (round_up (unat (local_work_memory_cur x)) (unat alignment))),
                      x\<lparr>local_work_memory_cur :=
                          of_nat (round_up (unat size0) (unat alignment)
                                  + round_up (unat (local_work_memory_cur x)) (unat alignment))\<rparr>))"
proof -
  let ?al = "ucast alignment :: u64"
  let ?size1 = "if size0 mod alignment \<noteq> 0 then ((size0 div alignment) + 1) * alignment else size0"
  let ?begin1 = "if local_work_memory_cur x mod ?al \<noteq> 0
                 then ((local_work_memory_cur x div ?al) + 1) * ?al else local_work_memory_cur x"
  let ?rs = "round_up (unat size0) (unat alignment)"
  let ?rb = "round_up (unat (local_work_memory_cur x)) (unat alignment)"
  have ual: "unat ?al = unat alignment"
    by (rule unat_ucast_u32_u64)
  have al0: "?al \<noteq> 0"
    using a ual by (metis unat_eq_zero)
  have us: "unat ?size1 = ?rs"
    using unat_round_up[OF a] s by simp
  have "round_up (unat (local_work_memory_cur x)) (unat ?al) < 2 ^ LENGTH(64)"
    using c ual by simp
  from unat_round_up[OF al0 this] have ub: "unat ?begin1 = ?rb"
    using ual by simp
  have usc: "unat (ucast ?size1 :: u64) = ?rs"
    using us by (simp only: unat_ucast_u32_u64)
  have sum: "unat ((ucast ?size1 :: u64) + ?begin1) = ?rs + ?rb"
    using c usc ub by (simp add: unat_word_ariths)
  have w1: "(ucast ?size1 :: u64) + ?begin1 = of_nat (?rs + ?rb)"
    using arg_cong[OF sum, of "of_nat :: nat \<Rightarrow> u64"] by (simp del: of_nat_add)
  have w2: "?begin1 = of_nat ?rb"
    using arg_cong[OF ub, of "of_nat :: nat \<Rightarrow> u64"] by simp
  have cmp: "((ucast ?size1 :: u64) + ?begin1 > local_work_memory_size x)
             \<longleftrightarrow> ?rs + ?rb > unat (local_work_memory_size x)"
    using sum by (simp add: word_less_nat_alt)
  show ?thesis
    unfolding acquire_local_work_memory_def Let_def
    using a cmp w1 w2 by (simp del: of_nat_add)
qed

text \<open>
  C10. \<^verbatim>\<open>acquire_local_work_memory(size, out, alignment)\<close> is to refuse a request whose
  rounded size does not fit behind the rounded cursor. At \<^verbatim>\<open>size = 0xFFFFFFFF\<close>,
  \<^verbatim>\<open>alignment = 8\<close>, a cursor of 0 and a work memory of 1024 bytes, the size rounded up
  to a multiple of 8 is \<open>2 ^ 32\<close>, far beyond the 1024 bytes; the 32-bit rounding of the
  code wraps to 0, and the call returns \<^verbatim>\<open>kErrorCodeOk\<close>, stores the base address to
  \<^verbatim>\<open>*out\<close> and leaves the cursor where it was.
\<close>

theorem acquire_local_work_memory_size_wraps:
  "round_up (unat (0xFFFFFFFF :: u32)) (unat (8 :: u32)) + round_up 0 (unat (8 :: u32)) > 1024 \<and>
   acquire_local_work_memory 0xFFFFFFFF 8
     \<lparr>local_work_memory = 4096, local_work_memory_size = 1024, local_work_memory_cur = 0\<rparr>
   = Inr (kErrorCodeOk, Some 4096,
       \<lparr>local_work_memory = 4096, local_work_memory_size = 1024, local_work_memory_cur = 0\<rparr>)"
  by (simp add: acquire_local_work_memory_def round_up_def)

end
